theory Spec2Isabelle
  imports Complex_Main
begin

section \<open>Endroid Music service worker: the dual-cache strategy\<close>

text \<open>
  A shallow embedding of \<^verbatim>\<open>src/service-worker.js\<close>. The worker's functions are
  translated one by one and keep their names. What the browser supplies (the network,
  the Cache Storage, timers, the console) is made explicit:
  \<^item> the network and the worker's location are an environment \<open>env\<close>;
  \<^item> the three named caches, the scheduled and detached work, and a journal of the
    console lines and cache writes are a \<open>world\<close>, passed through every function;
  \<^item> a promise that may reject is a value of \<open>error + 'a\<close>.
  An \<^verbatim>\<open>await\<close> is sequencing: the world a function returns is the world at the moment
  its promise settles. Work that the source starts without awaiting it is not run by the
  function that starts it: it is appended to \<open>pending\<close> and run by \<open>run_task\<close>.
  The listeners for \<^verbatim>\<open>activate\<close>, \<^verbatim>\<open>message\<close>, \<^verbatim>\<open>sync\<close> and \<^verbatim>\<open>push\<close> are not part of the
  embedding; the properties below are about installation, the fetch strategies and the
  health check.
\<close>

subsection \<open>JavaScript strings\<close>

text \<open>\<^verbatim>\<open>String.prototype.startsWith\<close>, \<^verbatim>\<open>includes\<close> and \<^verbatim>\<open>endsWith\<close>.\<close>

fun startsWith :: "string \<Rightarrow> string \<Rightarrow> bool" where
  "startsWith s [] = True"
| "startsWith [] (p # ps) = False"
| "startsWith (c # s) (p # ps) = (c = p \<and> startsWith s ps)"

fun includes_str :: "string \<Rightarrow> string \<Rightarrow> bool" where
  "includes_str [] t = (t = [])"
| "includes_str (c # s) t = (startsWith (c # s) t \<or> includes_str s t)"

definition endsWith :: "string \<Rightarrow> string \<Rightarrow> bool" where
  "endsWith s t = startsWith (rev s) (rev t)"

text \<open>ASCII lower-casing, for the \<^verbatim>\<open>i\<close> flag of a regular expression over ASCII letters.\<close>

definition lower_char :: "char \<Rightarrow> char" where
  "lower_char c =
     (case map_of (zip ''ABCDEFGHIJKLMNOPQRSTUVWXYZ'' ''abcdefghijklmnopqrstuvwxyz'') c of
        None \<Rightarrow> c
      | Some l \<Rightarrow> l)"

definition toLowerCase :: "string \<Rightarrow> string" where
  "toLowerCase s = map lower_char s"

text \<open>Decimal rendering of a number inside a template literal.\<close>

fun string_of_nat :: "nat \<Rightarrow> string" where
  "string_of_nat n =
     (if n < 10 then [''0123456789'' ! n]
      else string_of_nat (n div 10) @ [''0123456789'' ! (n mod 10)])"

subsection \<open>URLs\<close>

text \<open>
  \<^verbatim>\<open>new URL(u).pathname\<close> for a serialized hierarchical URL
  \<^verbatim>\<open>scheme://authority/path?query#fragment\<close>: the part from the first slash after the
  authority up to the query or fragment, and \<^verbatim>\<open>/\<close> when that part is empty.
  \<^verbatim>\<open>request.url\<close> is already serialized, so there are no dot segments left to remove.
\<close>

fun after_scheme :: "string \<Rightarrow> string" where
  "after_scheme [] = []"
| "after_scheme (c # s) = (if startsWith (c # s) ''://'' then drop 3 (c # s) else after_scheme s)"

definition pathname :: "string \<Rightarrow> string" where
  "pathname u =
     (let rest = dropWhile (\<lambda>c. c \<noteq> CHR ''/'' \<and> c \<noteq> CHR ''?'' \<and> c \<noteq> CHR ''#'')
                   (if includes_str u ''://'' then after_scheme u else u);
          p = takeWhile (\<lambda>c. c \<noteq> CHR ''?'' \<and> c \<noteq> CHR ''#'') rest
      in if p = [] then ''/'' else p)"

subsection \<open>Requests, responses and the environment\<close>

record request =
  url :: string  http_method :: string  mode :: string  cache :: string

record response =
  status :: nat
  statusText :: string
  headers :: "(string \<times> string) list"
  body :: string

text \<open>
  \<^verbatim>\<open>new Response(body, init)\<close>: a status and a status text that \<open>init\<close> does not give
  default to 200 and the empty string (Fetch standard).
\<close>

definition new_Response ::
  "string \<Rightarrow> nat option \<Rightarrow> string option \<Rightarrow> (string \<times> string) list \<Rightarrow> response" where
  "new_Response b st stt hs =
     \<lparr>status = (case st of None \<Rightarrow> 200 | Some s \<Rightarrow> s),
      statusText = (case stt of None \<Rightarrow> [] | Some t \<Rightarrow> t),
      headers = hs, body = b\<rparr>"

text \<open>\<^verbatim>\<open>new Request(url, {cache: c})\<close> from a string: a GET request in mode \<^verbatim>\<open>cors\<close>.\<close>

definition new_Request :: "string \<Rightarrow> string \<Rightarrow> request" where
  "new_Request u c = \<lparr>url = u, http_method = ''GET'', mode = ''cors'', cache = c\<rparr>"

text \<open>
  The environment: \<open>fetch\<close> gives the response of the network to a request, \<open>None\<close>
  when the fetch rejects; \<open>origin\<close> and \<open>base\<close> are the origin and the directory of the
  worker script, against which a URL given as a path is resolved.
\<close>

record env =
  fetch :: "request \<Rightarrow> response option"
  origin :: string
  base :: string

definition resolve :: "env \<Rightarrow> string \<Rightarrow> string" where
  "resolve e s =
     (if includes_str s ''://'' then s
      else if startsWith s ''/'' then origin e @ s
      else base e @ s)"

subsection \<open>The cache storage\<close>

datatype tier_name = CACHE_PRIMARY | CACHE_SECONDARY | CACHE_DATA

definition cache_name :: "tier_name \<Rightarrow> string" where
  "cache_name n =
     (case n of CACHE_PRIMARY \<Rightarrow> ''endroid-music-primary-v2.1''
              | CACHE_SECONDARY \<Rightarrow> ''endroid-music-secondary-v2.1''
              | CACHE_DATA \<Rightarrow> ''endroid-music-data-v2.1'')"

text \<open>
  The critical assets. The array literal of the source lacks the comma after
  \<^verbatim>\<open>'/service-worker.js'\<close>; it is read as the list of six strings that it spells.
\<close>

definition CRITICAL_ASSETS :: "string list" where
  "CRITICAL_ASSETS =
     [''/'', ''/index.html'', ''/manifest.json'', ''/icon.svg'', ''/service-worker.js'',
      ''https://fonts.googleapis.com/icon?family=Material+Icons'']"

definition OPTIONAL_ASSETS :: "string list" where
  "OPTIONAL_ASSETS = []"

datatype error = NoCacheAvailable | StorageFault

datatype event =
    ConsoleLog string
  | ConsoleError string
  | CachePut tier_name string bool
  | CacheAddAll tier_name "string list" bool
  | SkipWaiting

datatype task =
    SetTimeout nat request
  | DetachedPut tier_name request response
  | InFlightPut tier_name string response bool

text \<open>
  A cache is a map from the URL of a GET request to the stored response, so a write
  replaces. \<open>faults\<close> is the schedule of the storage layer: each write draws the next
  entry, \<open>True\<close> meaning that this write raises (quota exceeded, corruption); an exhausted
  schedule means no further fault. Any reason for which a write is rejected is a fault
  of this schedule. \<open>read_faults\<close> is the same for the reads that the worker guards with a
  \<^verbatim>\<open>try\<close> block, those of \<^verbatim>\<open>checkCacheHealth\<close> and \<^verbatim>\<open>repairCache\<close> (opening a
  cache, listing its keys, looking an asset up). The reads of the fetch strategies, which
  no \<^verbatim>\<open>try\<close> block guards, are taken to succeed. \<open>journal\<close> records console lines and
  attempted writes in program order.
\<close>

record world =
  store :: "tier_name \<Rightarrow> (string \<rightharpoonup> response)"
  faults :: "bool list"
  read_faults :: "bool list"
  journal :: "event list"
  pending :: "task list"

definition emit :: "event \<Rightarrow> world \<Rightarrow> world" where
  "emit ev w = w\<lparr>journal := journal w @ [ev]\<rparr>"

definition console_log :: "string \<Rightarrow> world \<Rightarrow> world" where
  "console_log m w = emit (ConsoleLog m) w"

definition console_error :: "string \<Rightarrow> world \<Rightarrow> world" where
  "console_error m w = emit (ConsoleError m) w"

definition next_fault :: "world \<Rightarrow> bool \<times> world" where
  "next_fault w = (case faults w of [] \<Rightarrow> (False, w) | f # fs \<Rightarrow> (f, w\<lparr>faults := fs\<rparr>))"

definition next_read_fault :: "world \<Rightarrow> bool \<times> world" where
  "next_read_fault w =
     (case read_faults w of [] \<Rightarrow> (False, w) | f # fs \<Rightarrow> (f, w\<lparr>read_faults := fs\<rparr>))"

text \<open>\<^verbatim>\<open>cache.match\<close> with a request, and with a string (resolved by the caller).\<close>

definition cache_match :: "tier_name \<Rightarrow> request \<Rightarrow> world \<Rightarrow> response option" where
  "cache_match n rq w = (if http_method rq = ''GET'' then store w n (url rq) else None)"

definition cache_match_url :: "env \<Rightarrow> tier_name \<Rightarrow> string \<Rightarrow> world \<Rightarrow> response option" where
  "cache_match_url e n s w = store w n (resolve e s)"

text \<open>
  \<^verbatim>\<open>cache.put\<close> under a URL: the flag returned is \<open>True\<close> when the write was done and
  \<open>False\<close> when the promise rejected. With a request that is not a GET, \<^verbatim>\<open>put\<close> rejects
  before it reaches the storage.
\<close>

definition cache_put :: "tier_name \<Rightarrow> string \<Rightarrow> response \<Rightarrow> world \<Rightarrow> bool \<times> world" where
  "cache_put n k r w =
     (let (f, w1) = next_fault w in
      if f then (False, emit (CachePut n k False) w1)
      else (True, emit (CachePut n k True) (w1\<lparr>store := (store w1)(n := (store w1 n)(k \<mapsto> r))\<rparr>)))"

definition cache_put_request ::
  "tier_name \<Rightarrow> request \<Rightarrow> response \<Rightarrow> world \<Rightarrow> bool \<times> world" where
  "cache_put_request n rq r w =
     (if http_method rq = ''GET'' then cache_put n (url rq) r w
      else (False, emit (CachePut n (url rq) False) w))"

text \<open>
  \<^verbatim>\<open>caches.match\<close>: the first hit over the caches in the order of their creation, which
  is the order in which \<^verbatim>\<open>install\<close> opens them. The storage holds the three current
  caches only, as it does once \<^verbatim>\<open>activate\<close> has deleted every other one.
\<close>

definition caches_match :: "request \<Rightarrow> world \<Rightarrow> response option" where
  "caches_match rq w =
     (case cache_match CACHE_PRIMARY rq w of Some r \<Rightarrow> Some r
      | None \<Rightarrow> (case cache_match CACHE_SECONDARY rq w of Some r \<Rightarrow> Some r
                 | None \<Rightarrow> cache_match CACHE_DATA rq w))"

text \<open>
  \<^verbatim>\<open>cache.addAll\<close>: every request is fetched; the promise rejects, and nothing is written,
  when two requests have the same URL, when a fetch rejects or when a response is not
  \<^verbatim>\<open>ok\<close> (a status outside 200..299, or 206). Otherwise all responses are written in one
  batch, which is one write for the storage layer.
\<close>

definition response_ok :: "response \<Rightarrow> bool" where
  "response_ok r = (200 \<le> status r \<and> status r \<le> 299 \<and> status r \<noteq> 206)"

fun put_all :: "(string \<times> response) list \<Rightarrow> (string \<rightharpoonup> response) \<Rightarrow> (string \<rightharpoonup> response)" where
  "put_all [] m = m"
| "put_all ((k, v) # kvs) m = put_all kvs (m(k \<mapsto> v))"

definition cache_addAll :: "env \<Rightarrow> tier_name \<Rightarrow> request list \<Rightarrow> world \<Rightarrow> bool \<times> world" where
  "cache_addAll e n rqs w =
     (let rs = map (fetch e) rqs; ks = map url rqs in
      if rqs = [] then (True, w)
      else if \<not> distinct ks \<or> \<not> list_all (\<lambda>r. case r of None \<Rightarrow> False | Some x \<Rightarrow> response_ok x) rs
      then (False, w)
      else
        (let (f, w1) = next_fault w in
         if f then (False, emit (CacheAddAll n ks False) w1)
         else (True, emit (CacheAddAll n ks True)
                 (w1\<lparr>store := (store w1)(n := put_all (zip ks (map the rs)) (store w1 n))\<rparr>))))"

subsection \<open>Installation\<close>

text \<open>
  The \<^verbatim>\<open>install\<close> listener. The three branches of \<^verbatim>\<open>Promise.all\<close> are run one after
  the other, Primary, Secondary, Data; each catches its own rejection, so the outer
  \<^verbatim>\<open>catch\<close> is never entered. A branch whose \<^verbatim>\<open>caches.open\<close> rejects does what a branch
  whose \<^verbatim>\<open>addAll\<close> rejects does: it logs the error and leaves its cache as it is.
\<close>

definition install :: "env \<Rightarrow> world \<Rightarrow> world" where
  "install e w =
     (let w0 = console_log ''[Service Worker] Installing...'' w;
          w1 = console_log ''[Service Worker] Caching critical assets in primary cache'' w0;
          (ok1, w2) = cache_addAll e CACHE_PRIMARY
                        (map (\<lambda>u. new_Request (resolve e u) ''reload'') CRITICAL_ASSETS) w1;
          w3 = (if ok1 then w2
                else console_error ''[Service Worker] Primary cache installation failed:'' w2);
          w4 = console_log ''[Service Worker] Caching critical assets in secondary cache'' w3;
          (ok2, w5) = cache_addAll e CACHE_SECONDARY
                        (map (\<lambda>u. new_Request (resolve e u) ''reload'') CRITICAL_ASSETS) w4;
          w6 = (if ok2 then w5
                else console_error ''[Service Worker] Secondary cache installation failed:'' w5);
          w7 = console_log ''[Service Worker] Caching optional assets in data cache'' w6;
          (ok3, w8) = cache_addAll e CACHE_DATA
                        (map (\<lambda>u. new_Request (resolve e u) ''default'') OPTIONAL_ASSETS) w7;
          w9 = (if ok3 then w8
                else console_error ''[Service Worker] Data cache installation failed:'' w8);
          w10 = console_log ''[Service Worker] All caches prepared successfully'' w9
      in emit SkipWaiting w10)"

subsection \<open>The fetch strategies\<close>

text \<open>
  \<^verbatim>\<open>updateBothCaches\<close>. The two writes of \<^verbatim>\<open>Promise.all\<close> are both started, Primary
  first, so both are attempted whatever the outcome of the other. When either rejects,
  the \<^verbatim>\<open>catch\<close> block writes to Primary again, and to Secondary only when that write
  rejects as well. \<^verbatim>\<open>Promise.all\<close> rejects at the first rejection, and nothing awaits the
  other write. \<open>updateBothCaches\<close> is the schedule in which the other write has settled by
  then. \<open>updateBothCaches_in_flight\<close>, further down, is the schedule in which it is still
  in flight when the function returns; the two agree when no write is rejected.
\<close>

definition updateBothCaches :: "string \<Rightarrow> response \<Rightarrow> world \<Rightarrow> world" where
  "updateBothCaches requestKey resp w =
     (let (ok1, w1) = cache_put CACHE_PRIMARY requestKey resp w;
          (ok2, w2) = cache_put CACHE_SECONDARY requestKey resp w1
      in if ok1 \<and> ok2
         then console_log (''[Service Worker] Updated both caches for: '' @ requestKey) w2
         else
           (let w3 = console_error ''[Service Worker] Failed to update caches:'' w2;
                (ok3, w4) = cache_put CACHE_PRIMARY requestKey resp w3
            in if ok3 then w4
               else
                 (let (ok4, w5) = cache_put CACHE_SECONDARY requestKey resp w4
                  in if ok4 then w5
                     else console_error ''[Service Worker] All cache updates failed'' w5)))"

text \<open>The regular expression \<^verbatim>\<open>/\.(mp3|wav|ogg|flac)$/i\<close>.\<close>

definition is_audio_url :: "string \<Rightarrow> bool" where
  "is_audio_url u =
     (let l = toLowerCase u
      in endsWith l ''.mp3'' \<or> endsWith l ''.wav'' \<or> endsWith l ''.ogg'' \<or> endsWith l ''.flac'')"

text \<open>
  \<^verbatim>\<open>refreshCacheInBackground\<close> only sets a timer of 1000 ms; \<open>refresh_callback\<close> is the
  function the timer runs.
\<close>

definition refreshCacheInBackground :: "request \<Rightarrow> world \<Rightarrow> world" where
  "refreshCacheInBackground rq w =
     (if is_audio_url (url rq) then w
      else w\<lparr>pending := pending w @ [SetTimeout 1000 rq]\<rparr>)"

definition refresh_callback :: "env \<Rightarrow> request \<Rightarrow> world \<Rightarrow> world" where
  "refresh_callback e rq w =
     (case fetch e rq of
        None \<Rightarrow> w
      | Some networkResponse \<Rightarrow>
          if status networkResponse = 200 then updateBothCaches (url rq) networkResponse w
          else w)"

text \<open>
  Running one piece of scheduled or detached work, at some later time. \<open>InFlightPut\<close> is a
  write that was started and whose outcome the storage has decided, but which has not
  settled yet; it lands when it is run.
\<close>

definition run_task :: "env \<Rightarrow> task \<Rightarrow> world \<Rightarrow> world" where
  "run_task e t w =
     (case t of
        SetTimeout ms rq \<Rightarrow> refresh_callback e rq w
      | DetachedPut n rq r \<Rightarrow> snd (cache_put_request n rq r w)
      | InFlightPut n k r ok \<Rightarrow>
          emit (CachePut n k ok)
            (if ok then w\<lparr>store := (store w)(n := (store w n)(k \<mapsto> r))\<rparr> else w))"

definition first_hit :: "response option list \<Rightarrow> response option" where
  "first_hit xs = (case List.find (\<lambda>x. x \<noteq> None) xs of None \<Rightarrow> None | Some x \<Rightarrow> x)"

definition findSimilarResource :: "env \<Rightarrow> request \<Rightarrow> world \<Rightarrow> response option" where
  "findSimilarResource e rq w =
     (let path = pathname (url rq);
          r1 = (if endsWith path ''/'' \<or> \<not> includes_str path ''.''
                then first_hit [cache_match_url e CACHE_PRIMARY ''/index.html'' w,
                                cache_match_url e CACHE_SECONDARY ''/index.html'' w]
                else None)
      in case r1 of
           Some r \<Rightarrow> Some r
         | None \<Rightarrow>
             if path = ''/'' \<or> path = [] \<or> path = ''/index.html''
             then first_hit [cache_match_url e CACHE_PRIMARY ''/'' w,
                             cache_match_url e CACHE_SECONDARY ''/'' w]
             else None)"

definition getNavigationFallback :: "env \<Rightarrow> world \<Rightarrow> response option" where
  "getNavigationFallback e w =
     first_hit [cache_match_url e CACHE_PRIMARY ''/index.html'' w,
                cache_match_url e CACHE_PRIMARY ''/'' w,
                cache_match_url e CACHE_PRIMARY ''index.html'' w,
                cache_match_url e CACHE_SECONDARY ''/index.html'' w,
                cache_match_url e CACHE_SECONDARY ''/'' w,
                cache_match_url e CACHE_SECONDARY ''index.html'' w]"

text \<open>
  The part of \<^verbatim>\<open>handleDualCacheRequest\<close> after the \<^verbatim>\<open>try\<close> block (strategies 2 to 5).
  The write that promotes a Secondary entry is awaited outside any \<^verbatim>\<open>try\<close>, so its
  rejection is the rejection of the handler.
\<close>

definition cache_strategies :: "env \<Rightarrow> request \<Rightarrow> world \<Rightarrow> (error + response) \<times> world" where
  "cache_strategies e rq w =
     (let requestKey = url rq in
      case cache_match CACHE_PRIMARY rq w of
        Some cachedResponse \<Rightarrow>
          (Inr cachedResponse,
           refreshCacheInBackground rq
             (console_log (''[Service Worker] Served from primary cache: '' @ requestKey) w))
      | None \<Rightarrow>
         (case cache_match CACHE_SECONDARY rq w of
            Some cachedResponse \<Rightarrow>
              (let w1 = console_log (''[Service Worker] Served from secondary cache: '' @ requestKey) w;
                   (ok, w2) = cache_put_request CACHE_PRIMARY rq cachedResponse w1
               in if ok then (Inr cachedResponse, w2) else (Inl StorageFault, w2))
          | None \<Rightarrow>
             (case findSimilarResource e rq w of
                Some cachedResponse \<Rightarrow>
                  (Inr cachedResponse,
                   console_log (''[Service Worker] Served similar resource for: '' @ requestKey) w)
              | None \<Rightarrow>
                 (case (if mode rq = ''navigate'' then getNavigationFallback e w else None) of
                    Some fallbackResponse \<Rightarrow> (Inr fallbackResponse, w)
                  | None \<Rightarrow> (Inl NoCacheAvailable, w)))))"

definition handleDualCacheRequest :: "env \<Rightarrow> request \<Rightarrow> world \<Rightarrow> (error + response) \<times> world" where
  "handleDualCacheRequest e rq w =
     (let requestKey = url rq in
      case fetch e rq of
        Some networkResponse \<Rightarrow>
          if status networkResponse = 200
          then (Inr networkResponse, updateBothCaches requestKey networkResponse w)
          else cache_strategies e rq w
      | None \<Rightarrow>
          cache_strategies e rq
            (console_log ''[Service Worker] Network unavailable, using cache:'' w))"

text \<open>
  The other schedule of \<^verbatim>\<open>Promise.all\<close>. When a first write is rejected, the rejection of
  Primary is seen first if Primary is rejected, and that of Secondary otherwise; the
  other first write is left in \<open>pending\<close> with the outcome the storage has decided for it.
  \<open>handleDualCacheRequest_in_flight\<close> is \<open>handleDualCacheRequest\<close> on this schedule.
\<close>

definition updateBothCaches_in_flight :: "string \<Rightarrow> response \<Rightarrow> world \<Rightarrow> world" where
  "updateBothCaches_in_flight requestKey resp w =
     (let f0 = (case faults w of [] \<Rightarrow> False | f # fs \<Rightarrow> f);
          f1 = (case drop 1 (faults w) of [] \<Rightarrow> False | f # fs \<Rightarrow> f)
      in if \<not> f0 \<and> \<not> f1 then updateBothCaches requestKey resp w
         else
           (let rejected = (if f0 then CACHE_PRIMARY else CACHE_SECONDARY);
                other = (if f0 then CACHE_SECONDARY else CACHE_PRIMARY);
                other_ok = (if f0 then \<not> f1 else True);
                w2 = emit (CachePut rejected requestKey False)
                       (w\<lparr>faults := drop 2 (faults w),
                          pending := pending w @ [InFlightPut other requestKey resp other_ok]\<rparr>);
                w3 = console_error ''[Service Worker] Failed to update caches:'' w2;
                (ok3, w4) = cache_put CACHE_PRIMARY requestKey resp w3
            in if ok3 then w4
               else
                 (let (ok4, w5) = cache_put CACHE_SECONDARY requestKey resp w4
                  in if ok4 then w5
                     else console_error ''[Service Worker] All cache updates failed'' w5)))"


text \<open>
  \<^verbatim>\<open>handleApiRequest\<close>. The write into the Data cache is started inside the \<^verbatim>\<open>then\<close>
  callback and neither awaited nor returned: it is detached work.
\<close>

definition offline_json :: response where
  \<open>offline_json =
     new_Response ''{"error":"Offline"}'' None None [(''Content-Type'', ''application/json'')]\<close>

definition handleApiRequest :: "env \<Rightarrow> request \<Rightarrow> world \<Rightarrow> (error + response) \<times> world" where
  "handleApiRequest e rq w =
     (case fetch e rq of
        Some resp \<Rightarrow>
          (Inr resp,
           if status resp = 200
           then w\<lparr>pending := pending w @ [DetachedPut CACHE_DATA rq resp]\<rparr>
           else w)
      | None \<Rightarrow>
          (case caches_match rq w of
             Some cachedResponse \<Rightarrow> (Inr cachedResponse, w)
           | None \<Rightarrow> (Inr offline_json, w)))"



text \<open>
  The \<^verbatim>\<open>fetch\<close> listener: \<open>route\<close> is its two guards, \<open>on_fetch\<close> the whole listener.
  \<open>None\<close> is an event the listener leaves to the browser.
\<close>

datatype strategy = NotHandled | ApiStrategy | DualCacheStrategy

definition route :: "request \<Rightarrow> strategy" where
  "route rq =
     (if http_method rq \<noteq> ''GET'' \<or> startsWith (url rq) ''chrome-extension://''
         \<or> includes_str (url rq) ''browser-sync''
      then NotHandled
      else if includes_str (url rq) ''/api/''
              \<or> includes_str (url rq) ''.json'' \<and> \<not> includes_str (url rq) ''manifest.json''
      then ApiStrategy
      else DualCacheStrategy)"


subsection \<open>Health check and repair\<close>

text \<open>
  One round of the first loop of \<^verbatim>\<open>checkCacheHealth\<close>. \<open>criticalAssetsCount\<close> is its
  counting loop, with the count so far as an argument; it stops at the first lookup that
  raises. \<open>check_one\<close> is the \<^verbatim>\<open>try\<close> block for one cache: it opens the cache, lists its
  keys, counts, and sets the verdict \<^verbatim>\<open>criticalAssetsCount >= CRITICAL_ASSETS.length * 0.8\<close>;
  when a read raises, the \<^verbatim>\<open>catch\<close> logs the error and the verdict stays at its initial
  value \<^verbatim>\<open>false\<close>. The comparison is over the reals: the product of the source is a
  double, and for a length below \<open>2^50\<close> it compares with an integer count as the exact
  product does.
\<close>

fun criticalAssetsCount :: "env \<Rightarrow> tier_name \<Rightarrow> string list \<Rightarrow> nat \<Rightarrow> world \<Rightarrow> nat option \<times> world" where
  "criticalAssetsCount e n [] c w = (Some c, w)"
| "criticalAssetsCount e n (asset # assets) c w =
     (let (f, w1) = next_read_fault w
      in if f then (None, w1)
         else criticalAssetsCount e n assets
                (case cache_match_url e n asset w1 of
                   Some r \<Rightarrow> if status r = 200 then c + 1 else c
                 | None \<Rightarrow> c) w1)"

definition check_one :: "env \<Rightarrow> tier_name \<Rightarrow> world \<Rightarrow> bool \<times> world" where
  "check_one e n w =
     (let (f1, w1) = next_read_fault w
      in if f1
         then (False, console_error (''[Service Worker] Error checking '' @ cache_name n @ '':'') w1)
         else
           (let (f2, w2) = next_read_fault w1
            in if f2
               then (False,
                     console_error (''[Service Worker] Error checking '' @ cache_name n @ '':'') w2)
               else
                 (case criticalAssetsCount e n CRITICAL_ASSETS 0 w2 of
                    (None, w3) \<Rightarrow>
                      (False,
                       console_error (''[Service Worker] Error checking '' @ cache_name n @ '':'') w3)
                  | (Some c, w3) \<Rightarrow>
                      (let h = (real (length CRITICAL_ASSETS) * 0.8 \<le> real c)
                       in (h, console_log
                                (''[Service Worker] '' @ cache_name n @ '' health: ''
                                   @ (if h then ''GOOD'' else ''POOR'') @ '' (''
                                   @ string_of_nat c @ ''/''
                                   @ string_of_nat (length CRITICAL_ASSETS) @ '' assets)'') w3)))))"

text \<open>
  \<^verbatim>\<open>repairCache\<close>: \<open>n\<close> is repaired from the donor \<open>h\<close>. \<open>repair_entry\<close> is the inner
  \<^verbatim>\<open>try\<close> block for one asset: a lookup in the donor or a write that raises is logged and
  the loop goes on. Opening either cache is guarded by the outer \<^verbatim>\<open>try\<close> block only:
  when it raises, the repair of this cache is given up.
\<close>

definition repair_entry :: "env \<Rightarrow> tier_name \<Rightarrow> tier_name \<Rightarrow> string \<Rightarrow> world \<Rightarrow> world" where
  "repair_entry e n h asset w =
     (let (f, w0) = next_read_fault w
      in if f then console_error (''[Service Worker] Failed to repair '' @ asset @ '':'') w0
         else
           (case cache_match_url e h asset w0 of
              None \<Rightarrow> w0
            | Some r \<Rightarrow>
                (let (ok, w1) = cache_put n (resolve e asset) r w0
                 in if ok
                    then console_log
                           (''[Service Worker] Repaired '' @ asset @ '' in '' @ cache_name n) w1
                    else console_error (''[Service Worker] Failed to repair '' @ asset @ '':'') w1)))"

fun repair_assets :: "env \<Rightarrow> tier_name \<Rightarrow> tier_name \<Rightarrow> string list \<Rightarrow> world \<Rightarrow> world" where
  "repair_assets e n h [] w = w"
| "repair_assets e n h (asset # assets) w = repair_assets e n h assets (repair_entry e n h asset w)"

definition repairCache :: "env \<Rightarrow> tier_name \<Rightarrow> world \<Rightarrow> world" where
  "repairCache e cacheName w =
     (let (f1, w1) = next_read_fault w
      in if f1
         then console_error (''[Service Worker] Failed to repair '' @ cache_name cacheName @ '':'') w1
         else
           (let healthyCacheName =
                  (if cacheName = CACHE_PRIMARY then CACHE_SECONDARY else CACHE_PRIMARY);
                (f2, w2) = next_read_fault w1
            in if f2
               then console_error
                      (''[Service Worker] Failed to repair '' @ cache_name cacheName @ '':'') w2
               else console_log
                      (''[Service Worker] '' @ cache_name cacheName @ '' repair completed'')
                      (repair_assets e cacheName healthyCacheName CRITICAL_ASSETS w2)))"

definition checkCacheHealth :: "env \<Rightarrow> world \<Rightarrow> world" where
  "checkCacheHealth e w =
     (let w0 = console_log ''[Service Worker] Running cache health check...'' w;
          (h1, w1) = check_one e CACHE_PRIMARY w0;
          (h2, w2) = check_one e CACHE_SECONDARY w1;
          w3 = (if \<not> h1
                then repairCache e CACHE_PRIMARY
                       (console_log (''[Service Worker] Repairing '' @ cache_name CACHE_PRIMARY @ ''...'') w2)
                else w2)
      in if \<not> h2
         then repairCache e CACHE_SECONDARY
                (console_log (''[Service Worker] Repairing '' @ cache_name CACHE_SECONDARY @ ''...'') w3)
         else w3)"

subsection \<open>Observations on a run\<close>

text \<open>
  \<open>fault_at w i\<close>: the \<open>i\<close>-th write after \<open>w\<close> raises. \<open>new_events w w'\<close>: what a run from
  \<open>w\<close> to \<open>w'\<close> added to the journal. \<open>writes_attempted\<close>: the cache writes among them.
\<close>

definition fault_at :: "world \<Rightarrow> nat \<Rightarrow> bool" where
  "fault_at w i = (i < length (faults w) \<and> faults w ! i)"

definition new_events :: "world \<Rightarrow> world \<Rightarrow> event list" where
  "new_events w w' = drop (length (journal w)) (journal w')"



text \<open>
  \<open>journal_grows w w'\<close>: the journal of \<open>w'\<close> continues that of \<open>w\<close>. \<open>set_data d w\<close>
  replaces the content of the Data cache. \<open>other_tier\<close> is the donor that \<^verbatim>\<open>repairCache\<close>
  chooses. \<open>read_fault_within w k\<close>: one of the next \<open>k\<close> guarded reads raises.
  \<open>present_count\<close> counts the assets that a cache holds with status 200, and
  \<open>meets_threshold\<close> is the 80 percent threshold on that count. \<open>repair_failed\<close> and
  \<open>check_failed\<close> are the error lines of \<^verbatim>\<open>repairCache\<close> and \<^verbatim>\<open>checkCacheHealth\<close>.
  \<open>addAll_reaches\<close> says that \<^verbatim>\<open>addAll\<close> gets as far as writing, and \<open>addAll_kvs\<close> is what
  it then writes.
\<close>

definition journal_grows :: "world \<Rightarrow> world \<Rightarrow> bool" where
  "journal_grows w w' = (\<exists>evs. journal w' = journal w @ evs)"

definition set_data :: "(string \<rightharpoonup> response) \<Rightarrow> world \<Rightarrow> world" where
  "set_data d w = w\<lparr>store := (store w)(CACHE_DATA := d)\<rparr>"

definition other_tier :: "tier_name \<Rightarrow> tier_name" where
  "other_tier c = (if c = CACHE_PRIMARY then CACHE_SECONDARY else CACHE_PRIMARY)"

definition read_fault_within :: "world \<Rightarrow> nat \<Rightarrow> bool" where
  "read_fault_within w k = (True \<in> set (take k (read_faults w)))"

definition present_count :: "env \<Rightarrow> tier_name \<Rightarrow> string list \<Rightarrow> world \<Rightarrow> nat" where
  "present_count e n assets w =
     length (filter (\<lambda>a. case store w n (resolve e a) of None \<Rightarrow> False | Some r \<Rightarrow> status r = 200)
               assets)"

definition meets_threshold :: "env \<Rightarrow> tier_name \<Rightarrow> world \<Rightarrow> bool" where
  "meets_threshold e n w =
     (0.8 * real (length CRITICAL_ASSETS) \<le> real (present_count e n CRITICAL_ASSETS w))"

definition repair_failed :: "string \<Rightarrow> event" where
  "repair_failed x = ConsoleError (''[Service Worker] Failed to repair '' @ x @ '':'')"

definition check_failed :: "tier_name \<Rightarrow> event" where
  "check_failed n = ConsoleError (''[Service Worker] Error checking '' @ cache_name n @ '':'')"

fun is_error :: "event \<Rightarrow> bool" where
  "is_error (ConsoleError m) = True"
| "is_error ev = False"

definition addAll_reaches :: "env \<Rightarrow> request list \<Rightarrow> bool" where
  "addAll_reaches e rqs =
     (rqs \<noteq> [] \<and> distinct (map url rqs)
      \<and> list_all (\<lambda>r. case r of None \<Rightarrow> False | Some x \<Rightarrow> response_ok x) (map (fetch e) rqs))"

definition addAll_kvs :: "env \<Rightarrow> request list \<Rightarrow> (string \<times> response) list" where
  "addAll_kvs e rqs = zip (map url rqs) (map the (map (fetch e) rqs))"


subsection \<open>The routing rule in the words of the specification\<close>

text \<open>
  The specification describes the requests of the API strategy as those whose
  \<^emph>\<open>path\<close> contains \<^verbatim>\<open>/api/\<close>, or whose \<^emph>\<open>file name\<close> ends in \<^verbatim>\<open>.json\<close> and is not the
  manifest descriptor. \<open>spec_api_like\<close> is that description, for comparison with \<open>route\<close>.
\<close>

definition filename :: "string \<Rightarrow> string" where
  "filename u = rev (takeWhile (\<lambda>c. c \<noteq> CHR ''/'') (rev (pathname u)))"

definition spec_api_like :: "string \<Rightarrow> bool" where
  "spec_api_like u =
     (includes_str (pathname u) ''/api/''
      \<or> endsWith (filename u) ''.json'' \<and> filename u \<noteq> ''manifest.json'')"

subsection \<open>Concrete requests, networks and worlds\<close>

definition ex_resp :: response where
  "ex_resp = \<lparr>status = 200, statusText = ''OK'', headers = [], body = ''fresh''\<rparr>"

definition ex_cached :: response where
  "ex_cached = \<lparr>status = 200, statusText = ''OK'', headers = [], body = ''stored''\<rparr>"

definition ex_req :: request where
  "ex_req = \<lparr>url = ''https://e.org/app.js'', http_method = ''GET'', mode = ''no-cors'',
              cache = ''default''\<rparr>"

definition ex_api_req :: request where
  "ex_api_req = \<lparr>url = ''https://e.org/api/tracks.json'', http_method = ''GET'', mode = ''cors'',
                  cache = ''default''\<rparr>"

definition ex_jsonl_req :: request where
  "ex_jsonl_req = \<lparr>url = ''https://e.org/log.jsonl'', http_method = ''GET'', mode = ''cors'',
                    cache = ''default''\<rparr>"

definition ex_mp3_req :: request where
  "ex_mp3_req = \<lparr>url = ''https://e.org/song.MP3'', http_method = ''GET'', mode = ''no-cors'',
                  cache = ''default''\<rparr>"

definition net_up :: "request \<Rightarrow> response option" where
  "net_up rq = Some ex_resp"

definition net_down :: "request \<Rightarrow> response option" where
  "net_down rq = None"

definition env_up :: env where
  "env_up = \<lparr>fetch = net_up, origin = ''https://e.org'', base = ''https://e.org/''\<rparr>"

definition env_down :: env where
  "env_down = \<lparr>fetch = net_down, origin = ''https://e.org'', base = ''https://e.org/''\<rparr>"

definition empty_store :: "tier_name \<Rightarrow> (string \<rightharpoonup> response)" where
  "empty_store n = Map.empty"

definition only_in :: "tier_name \<Rightarrow> string \<Rightarrow> response \<Rightarrow> tier_name \<Rightarrow> (string \<rightharpoonup> response)" where
  "only_in t k r n = (if n = t then [k \<mapsto> r] else Map.empty)"

definition world_of :: "(tier_name \<Rightarrow> (string \<rightharpoonup> response)) \<Rightarrow> bool list \<Rightarrow> world" where
  "world_of st fs = \<lparr>store = st, faults = fs, read_faults = [], journal = [], pending = []\<rparr>"

definition world_reads :: "(tier_name \<Rightarrow> (string \<rightharpoonup> response)) \<Rightarrow> bool list \<Rightarrow> world" where
  "world_reads st rfs = \<lparr>store = st, faults = [], read_faults = rfs, journal = [], pending = []\<rparr>"

definition ex_error :: response where
  "ex_error = \<lparr>status = 500, statusText = ''Internal Server Error'', headers = [],
               body = ''oops''\<rparr>"

definition net_500 :: "request \<Rightarrow> response option" where
  "net_500 rq = Some ex_error"

definition env_500 :: env where
  "env_500 = \<lparr>fetch = net_500, origin = ''https://e.org'', base = ''https://e.org/''\<rparr>"

definition ex_stale :: response where
  "ex_stale = \<lparr>status = 200, statusText = ''OK'', headers = [], body = ''stale''\<rparr>"

definition complete_primary :: "tier_name \<Rightarrow> (string \<rightharpoonup> response)" where
  "complete_primary n =
     (if n = CACHE_PRIMARY
      then map_of [(''https://e.org/'', ex_cached), (''https://e.org/index.html'', ex_cached),
                   (''https://e.org/manifest.json'', ex_cached), (''https://e.org/icon.svg'', ex_cached),
                   (''https://e.org/service-worker.js'', ex_cached),
                   (''https://fonts.googleapis.com/icon?family=Material+Icons'', ex_cached)]
      else Map.empty)"

definition net_assets :: "request \<Rightarrow> response option" where
  "net_assets rq = (if cache rq = ''reload'' then Some ex_resp else None)"

definition env_install :: env where
  "env_install = \<lparr>fetch = net_assets, origin = ''https://e.org'', base = ''https://e.org/''\<rparr>"

section \<open>Properties\<close>

subsection \<open>Strings\<close>

text \<open>The string tests of the worker, characterised by decompositions of the string.\<close>

lemma startsWith_iff: "startsWith s p \<longleftrightarrow> (\<exists>b. s = p @ b)"
  by (induction s p rule: startsWith.induct) auto

lemma includes_str_iff: "includes_str s t \<longleftrightarrow> (\<exists>a b. s = a @ t @ b)"
proof (induction s)
  case Nil
  then show ?case by simp
next
  case (Cons c s)
  show ?case
  proof
    assume "includes_str (c # s) t"
    then consider "startsWith (c # s) t" | "includes_str s t" by auto
    then show "\<exists>a b. c # s = a @ t @ b"
    proof cases
      case 1
      then obtain b where "c # s = t @ b" by (auto simp: startsWith_iff)
      then have "c # s = [] @ t @ b" by simp
      then show ?thesis by blast
    next
      case 2
      then obtain a b where "s = a @ t @ b" using Cons.IH by auto
      then have "c # s = (c # a) @ t @ b" by simp
      then show ?thesis by blast
    qed
  next
    assume "\<exists>a b. c # s = a @ t @ b"
    then obtain a b where ab: "c # s = a @ t @ b" by blast
    show "includes_str (c # s) t"
    proof (cases a)
      case Nil
      then have "startsWith (c # s) t" using ab by (auto simp: startsWith_iff)
      then show ?thesis by simp
    next
      case (Cons x a')
      then have "s = a' @ t @ b" using ab by simp
      then have "includes_str s t" using Cons.IH by blast
      then show ?thesis by simp
    qed
  qed
qed

lemma endsWith_iff: "endsWith s t \<longleftrightarrow> (\<exists>a. s = a @ t)"
proof -
  have "endsWith s t \<longleftrightarrow> (\<exists>b. rev s = rev t @ b)"
    by (simp add: endsWith_def startsWith_iff)
  also have "\<dots> \<longleftrightarrow> (\<exists>a. s = a @ t)"
  proof
    assume "\<exists>b. rev s = rev t @ b"
    then obtain b where "rev s = rev t @ b" by blast
    then have "rev (rev s) = rev (rev t @ b)" by simp
    then have "s = rev b @ t" by simp
    then show "\<exists>a. s = a @ t" by blast
  next
    assume "\<exists>a. s = a @ t"
    then obtain a where "s = a @ t" by blast
    then have "rev s = rev t @ rev a" by simp
    then show "\<exists>b. rev s = rev t @ b" by blast
  qed
  finally show ?thesis .
qed

subsection \<open>Routing of an intercepted request\<close>

text \<open>
  Claim C6, as stated, fails: a GET request for \<^verbatim>\<open>https://e.org/log.jsonl\<close> is routed to
  the API strategy, although its path does not contain \<^verbatim>\<open>/api/\<close> and its file name
  \<^verbatim>\<open>log.jsonl\<close> does not end in \<^verbatim>\<open>.json\<close>. The listener tests the whole URL for
  substrings; it does not look at the path or at the end of the file name.
\<close>

theorem route_not_spec_api_like_counterexample:
  "http_method ex_jsonl_req = ''GET'' \<and> route ex_jsonl_req = ApiStrategy
     \<and> \<not> spec_api_like (url ex_jsonl_req)"
  by (simp add: route_def ex_jsonl_req_def spec_api_like_def pathname_def filename_def endsWith_def)

text \<open>
  Claim C6, amended: a request is routed to the API strategy if and only if it is a GET
  request that the listener does not skip (its URL neither starts with
  \<^verbatim>\<open>chrome-extension://\<close> nor contains \<^verbatim>\<open>browser-sync\<close>) and its URL, as a string,
  contains \<^verbatim>\<open>/api/\<close>, or contains \<^verbatim>\<open>.json\<close> and does not contain \<^verbatim>\<open>manifest.json\<close>.
\<close>

theorem route_api_iff_url_substrings:
  "route rq = ApiStrategy \<longleftrightarrow>
     (http_method rq = ''GET'' \<and> \<not> (\<exists>b. url rq = ''chrome-extension://'' @ b)
        \<and> \<not> (\<exists>a b. url rq = a @ ''browser-sync'' @ b))
     \<and> ((\<exists>a b. url rq = a @ ''/api/'' @ b)
        \<or> (\<exists>a b. url rq = a @ ''.json'' @ b) \<and> \<not> (\<exists>a b. url rq = a @ ''manifest.json'' @ b))"
  unfolding route_def startsWith_iff includes_str_iff by auto

theorem route_api_iff_url_substrings_witness:
  "(\<exists>a b. url ex_api_req = a @ ''/api/'' @ b) \<and> route ex_api_req = ApiStrategy"
proof -
  have 1: "\<not> (\<exists>b. url ex_api_req = ''chrome-extension://'' @ b)"
    unfolding startsWith_iff[symmetric] by (simp add: ex_api_req_def)
  have 2: "\<not> (\<exists>a b. url ex_api_req = a @ ''browser-sync'' @ b)"
    unfolding includes_str_iff[symmetric] by (simp add: ex_api_req_def)
  have 3: "\<exists>a b. url ex_api_req = a @ ''/api/'' @ b"
    unfolding includes_str_iff[symmetric] by (simp add: ex_api_req_def)
  have 4: "http_method ex_api_req = ''GET''" by (simp add: ex_api_req_def)
  show ?thesis using route_api_iff_url_substrings[of ex_api_req] 1 2 3 4 by blast
qed

subsection \<open>Writing a network response into both caches\<close>

lemmas io_defs = cache_put_def next_fault_def emit_def console_error_def console_log_def

lemma updateBothCaches_primary:
  "\<not> fault_at w 0 \<or> \<not> fault_at w 2 \<Longrightarrow>
   store (updateBothCaches k r w) CACHE_PRIMARY k = Some r"
  by (auto simp add: fault_at_def updateBothCaches_def io_defs Let_def nth_Cons
      split: list.splits nat.splits)

lemma updateBothCaches_secondary:
  "\<not> fault_at w 1 \<or> (fault_at w 2 \<and> \<not> fault_at w 3) \<Longrightarrow>
   store (updateBothCaches k r w) CACHE_SECONDARY k = Some r"
  by (auto simp add: fault_at_def updateBothCaches_def io_defs Let_def nth_Cons
      split: list.splits nat.splits)


lemma updateBothCaches_journal:
  "journal (updateBothCaches k r w) = journal w @
     [CachePut CACHE_PRIMARY k (\<not> fault_at w 0), CachePut CACHE_SECONDARY k (\<not> fault_at w 1)] @
     (if \<not> fault_at w 0 \<and> \<not> fault_at w 1
      then [ConsoleLog (''[Service Worker] Updated both caches for: '' @ k)]
      else [ConsoleError ''[Service Worker] Failed to update caches:'',
            CachePut CACHE_PRIMARY k (\<not> fault_at w 2)] @
           (if \<not> fault_at w 2 then []
            else [CachePut CACHE_SECONDARY k (\<not> fault_at w 3)] @
                 (if \<not> fault_at w 3 then []
                  else [ConsoleError ''[Service Worker] All cache updates failed''])))"
  by (auto simp add: fault_at_def updateBothCaches_def io_defs Let_def nth_Cons
      split: list.splits nat.splits)

lemmas ex_defs = ex_resp_def ex_cached_def ex_req_def ex_api_req_def ex_mp3_req_def net_up_def net_down_def
  ex_error_def net_500_def env_500_def ex_stale_def world_reads_def
  env_up_def env_down_def empty_store_def only_in_def world_of_def

text \<open>
  Claim C1, as stated, fails when the storage rejects a write. With the network up and
  the first write to Primary and its retry both rejected, the network response is
  returned, but Primary does not hold it when the handler completes.
\<close>

theorem network_success_primary_missing_counterexample:
  "fetch env_up ex_req = Some ex_resp \<and> status ex_resp = 200
     \<and> route ex_req = DualCacheStrategy
     \<and> fst (handleDualCacheRequest env_up ex_req (world_of empty_store [True, False, True]))
         = Inr ex_resp
     \<and> store (snd (handleDualCacheRequest env_up ex_req (world_of empty_store [True, False, True])))
         CACHE_PRIMARY (url ex_req) = None"
  by (simp add: handleDualCacheRequest_def updateBothCaches_def io_defs ex_defs route_def Let_def)

text \<open>
  Claim C1, amended: for every request handled by the dual-cache strategy whose network
  fetch returns a response with status 200, the network response itself is returned;
  when the handler completes, Primary holds that response under the request's URL if the
  first write to Primary or its retry succeeded, and Secondary holds it if its first
  write succeeded, or the retry on Primary failed and the retry on Secondary succeeded.
  In particular both hold it when neither of the two first writes fails.
\<close>

theorem network_success_populates_tiers:
  assumes "fetch e rq = Some r" and "status r = 200"
  shows "fst (handleDualCacheRequest e rq w) = Inr r
     \<and> (\<not> fault_at w 0 \<or> \<not> fault_at w 2 \<longrightarrow>
          store (snd (handleDualCacheRequest e rq w)) CACHE_PRIMARY (url rq) = Some r)
     \<and> (\<not> fault_at w 1 \<or> (fault_at w 2 \<and> \<not> fault_at w 3) \<longrightarrow>
          store (snd (handleDualCacheRequest e rq w)) CACHE_SECONDARY (url rq) = Some r)
     \<and> (\<not> fault_at w 0 \<and> \<not> fault_at w 1 \<longrightarrow>
          store (snd (handleDualCacheRequest e rq w)) CACHE_PRIMARY (url rq) = Some r
          \<and> store (snd (handleDualCacheRequest e rq w)) CACHE_SECONDARY (url rq) = Some r)"
  using assms updateBothCaches_primary[of w "url rq" r] updateBothCaches_secondary[of w "url rq" r]
  by (simp add: handleDualCacheRequest_def)

theorem network_success_populates_tiers_witness:
  "fetch env_up ex_req = Some ex_resp \<and> status ex_resp = 200
     \<and> \<not> fault_at (world_of empty_store []) 0 \<and> \<not> fault_at (world_of empty_store []) 1
     \<and> fst (handleDualCacheRequest env_up ex_req (world_of empty_store [])) = Inr ex_resp
     \<and> store (snd (handleDualCacheRequest env_up ex_req (world_of empty_store [])))
          CACHE_PRIMARY (url ex_req) = Some ex_resp
     \<and> store (snd (handleDualCacheRequest env_up ex_req (world_of empty_store [])))
          CACHE_SECONDARY (url ex_req) = Some ex_resp"
proof -
  have f: "fetch env_up ex_req = Some ex_resp" by (simp add: ex_defs)
  have s: "status ex_resp = 200" by (simp add: ex_defs)
  have n: "\<not> fault_at (world_of empty_store []) 0 \<and> \<not> fault_at (world_of empty_store []) 1"
    by (simp add: fault_at_def ex_defs)
  show ?thesis
    using network_success_populates_tiers[OF f s, of "world_of empty_store []"] f s n by simp
qed





lemma in_flight_settles:
  "fault_at w 0 \<or> fault_at w 1 \<Longrightarrow>
   store (run_task e (InFlightPut (if fault_at w 0 then CACHE_SECONDARY else CACHE_PRIMARY) k r
            (if fault_at w 0 then \<not> fault_at w 1 else True)) (updateBothCaches_in_flight k r w))
     = store (updateBothCaches k r w)"
  by (auto simp add: updateBothCaches_in_flight_def updateBothCaches_def run_task_def fault_at_def
      io_defs Let_def nth_Cons fun_eq_iff split: list.splits nat.splits)



text \<open>
  Claim C3, as stated, fails: when the write to Primary alone fails, the retry is made
  against Primary again, the cache whose write failed, and not against the other one.
\<close>

theorem retry_targets_failed_tier_counterexample:
  "new_events (world_of empty_store [True, False])
      (updateBothCaches (url ex_req) ex_resp (world_of empty_store [True, False]))
    = [CachePut CACHE_PRIMARY (url ex_req) False,
       CachePut CACHE_SECONDARY (url ex_req) True,
       ConsoleError ''[Service Worker] Failed to update caches:'',
       CachePut CACHE_PRIMARY (url ex_req) True]"
  by (simp add: updateBothCaches_def io_defs ex_defs Let_def new_events_def)

text \<open>
  Claim C3, amended: when one of the two writes of a network response fails, whichever
  it is, the failure is logged and the write is retried against Primary; Secondary is
  retried only when that retry on Primary fails too; when every write fails this is
  logged. None of this reaches the requester: the handler returns the network response.
\<close>

theorem write_failure_retries_primary_first:
  assumes "fault_at w 0 \<or> fault_at w 1"
  shows "new_events w (updateBothCaches k r w) =
      [CachePut CACHE_PRIMARY k (\<not> fault_at w 0), CachePut CACHE_SECONDARY k (\<not> fault_at w 1),
       ConsoleError ''[Service Worker] Failed to update caches:'',
       CachePut CACHE_PRIMARY k (\<not> fault_at w 2)] @
      (if fault_at w 2
       then CachePut CACHE_SECONDARY k (\<not> fault_at w 3) #
            (if fault_at w 3 then [ConsoleError ''[Service Worker] All cache updates failed'']
             else [])
       else [])
     \<and> (fetch e rq = Some r \<and> status r = 200 \<longrightarrow> fst (handleDualCacheRequest e rq w) = Inr r)"
  using assms
  by (auto simp add: new_events_def updateBothCaches_journal handleDualCacheRequest_def)

theorem write_failure_retries_primary_first_witness:
  "fault_at (world_of empty_store [True, True, True, True]) 0
     \<and> new_events (world_of empty_store [True, True, True, True])
         (updateBothCaches (url ex_req) ex_resp (world_of empty_store [True, True, True, True]))
       = [CachePut CACHE_PRIMARY (url ex_req) False, CachePut CACHE_SECONDARY (url ex_req) False,
          ConsoleError ''[Service Worker] Failed to update caches:'',
          CachePut CACHE_PRIMARY (url ex_req) False,
          CachePut CACHE_SECONDARY (url ex_req) False,
          ConsoleError ''[Service Worker] All cache updates failed'']
     \<and> fst (handleDualCacheRequest env_up ex_req (world_of empty_store [True, True, True, True]))
         = Inr ex_resp"
proof -
  have a: "fault_at (world_of empty_store [True, True, True, True]) 0"
    by (simp add: fault_at_def ex_defs)
  have fs: "fault_at (world_of empty_store [True, True, True, True]) 1"
    "fault_at (world_of empty_store [True, True, True, True]) 2"
    "fault_at (world_of empty_store [True, True, True, True]) 3"
    by (simp_all add: fault_at_def ex_defs)
  have f: "fetch env_up ex_req = Some ex_resp \<and> status ex_resp = 200" by (simp add: ex_defs)
  show ?thesis
    using write_failure_retries_primary_first[where w = "world_of empty_store [True, True, True, True]"
        and e = env_up and rq = ex_req and r = ex_resp and k = "url ex_req"] a fs f
    by simp
qed

subsection \<open>Falling back to the caches\<close>

lemma is_audio_url_iff:
  "is_audio_url u \<longleftrightarrow>
     (\<exists>p. toLowerCase u = p @ ''.mp3'' \<or> toLowerCase u = p @ ''.wav''
          \<or> toLowerCase u = p @ ''.ogg'' \<or> toLowerCase u = p @ ''.flac'')"
  by (auto simp add: is_audio_url_def endsWith_iff Let_def)






subsection \<open>The API strategy\<close>

lemma caches_match_None: "caches_match rq w = None \<longleftrightarrow> (\<forall>n. cache_match n rq w = None)"
proof -
  have "\<And>n. n = CACHE_PRIMARY \<or> n = CACHE_SECONDARY \<or> n = CACHE_DATA"
    by (case_tac n) auto
  then show ?thesis
    by (auto simp add: caches_match_def split: option.splits) metis
qed

lemma caches_match_Some: "caches_match rq w = Some c \<Longrightarrow> \<exists>n. cache_match n rq w = Some c"
  by (auto simp add: caches_match_def split: option.splits)

text \<open>
  Claim C7, as stated, fails for a fetch that resolves with a status other than 200,
  which the specification counts as a network failure: the API strategy returns that
  response as it is, here a 500, although the Data cache holds a copy of the request.
\<close>

theorem api_non200_returned_counterexample:
  "fetch env_500 ex_api_req = Some ex_error \<and> status ex_error = 500
     \<and> route ex_api_req = ApiStrategy
     \<and> store (world_of (only_in CACHE_DATA (url ex_api_req) ex_cached) []) CACHE_DATA (url ex_api_req)
         = Some ex_cached
     \<and> fst (handleApiRequest env_500 ex_api_req
              (world_of (only_in CACHE_DATA (url ex_api_req) ex_cached) [])) = Inr ex_error
     \<and> ex_error \<noteq> ex_cached \<and> ex_error \<noteq> offline_json"
  by (simp add: handleApiRequest_def route_def ex_defs offline_json_def new_Response_def)

text \<open>
  Claim C7, amended: in the API strategy a response of the network is returned as it
  is, whatever its status, and with status 200 its write into the Data cache is started
  as detached work, which stores it under the request's URL unless the storage rejects
  the write. When the fetch rejects, an exact match in one of the caches is returned if
  the lookup finds one, and otherwise the synthesized body \<^verbatim>\<open>{"error":"Offline"}\<close> with
  a JSON content type; in particular a GET request whose only cached copy is in the Data
  cache gets that cached response, not the synthesized one.
\<close>

theorem api_strategy_network_first:
  \<open>(\<forall>r. fetch e rq = Some r \<longrightarrow> fst (handleApiRequest e rq w) = Inr r)
   \<and> (\<forall>r. fetch e rq = Some r \<and> status r = 200 \<longrightarrow>
         pending (snd (handleApiRequest e rq w)) = pending w @ [DetachedPut CACHE_DATA rq r]
         \<and> (\<forall>e'. http_method rq = ''GET'' \<and> \<not> fault_at (snd (handleApiRequest e rq w)) 0 \<longrightarrow>
               store (run_task e' (DetachedPut CACHE_DATA rq r) (snd (handleApiRequest e rq w)))
                 CACHE_DATA (url rq) = Some r))
   \<and> (fetch e rq = None \<longrightarrow>
         ((\<exists>n c. cache_match n rq w = Some c) \<longrightarrow>
            (\<exists>n c. cache_match n rq w = Some c \<and> fst (handleApiRequest e rq w) = Inr c))
         \<and> ((\<forall>n. cache_match n rq w = None) \<longrightarrow> fst (handleApiRequest e rq w) = Inr offline_json)
         \<and> (\<forall>c. http_method rq = ''GET'' \<and> store w CACHE_PRIMARY (url rq) = None
                \<and> store w CACHE_SECONDARY (url rq) = None \<and> store w CACHE_DATA (url rq) = Some c
              \<longrightarrow> fst (handleApiRequest e rq w) = Inr c))
   \<and> body offline_json = ''{"error":"Offline"}''
   \<and> headers offline_json = [(''Content-Type'', ''application/json'')]\<close>
proof -
  have 2: "\<forall>r. fetch e rq = Some r \<longrightarrow> fst (handleApiRequest e rq w) = Inr r"
    by (auto simp add: handleApiRequest_def)
  have 3: "\<forall>r. fetch e rq = Some r \<and> status r = 200 \<longrightarrow>
         pending (snd (handleApiRequest e rq w)) = pending w @ [DetachedPut CACHE_DATA rq r]
         \<and> (\<forall>e'. http_method rq = ''GET'' \<and> \<not> fault_at (snd (handleApiRequest e rq w)) 0 \<longrightarrow>
               store (run_task e' (DetachedPut CACHE_DATA rq r) (snd (handleApiRequest e rq w)))
                 CACHE_DATA (url rq) = Some r)"
    by (auto simp add: handleApiRequest_def run_task_def cache_put_request_def io_defs fault_at_def
        Let_def split: list.splits)
  have 4: "fetch e rq = None \<Longrightarrow> \<exists>n c. cache_match n rq w = Some c \<Longrightarrow>
            (\<exists>n c. cache_match n rq w = Some c \<and> fst (handleApiRequest e rq w) = Inr c)"
  proof -
    assume f: "fetch e rq = None" and ex: "\<exists>n c. cache_match n rq w = Some c"
    then have "caches_match rq w \<noteq> None" by (auto simp add: caches_match_None)
    then obtain c where c: "caches_match rq w = Some c" by auto
    then obtain n where "cache_match n rq w = Some c" using caches_match_Some by blast
    moreover have "fst (handleApiRequest e rq w) = Inr c" using f c by (simp add: handleApiRequest_def)
    ultimately show ?thesis by blast
  qed
  have 5: "fetch e rq = None \<Longrightarrow> \<forall>n. cache_match n rq w = None \<Longrightarrow>
            fst (handleApiRequest e rq w) = Inr offline_json"
    using caches_match_None[of rq w] by (simp add: handleApiRequest_def)
  have 6: "\<forall>c. fetch e rq = None \<and> http_method rq = ''GET'' \<and> store w CACHE_PRIMARY (url rq) = None
                \<and> store w CACHE_SECONDARY (url rq) = None \<and> store w CACHE_DATA (url rq) = Some c
              \<longrightarrow> fst (handleApiRequest e rq w) = Inr c"
    by (simp add: handleApiRequest_def caches_match_def cache_match_def)
  have 7: \<open>body offline_json = ''{"error":"Offline"}''
   \<and> headers offline_json = [(''Content-Type'', ''application/json'')]\<close>
    by (simp add: offline_json_def new_Response_def)
  show ?thesis using 2 3 4 5 6 7 by blast
qed

theorem api_strategy_network_first_witness:
  "fetch env_down ex_api_req = None \<and> http_method ex_api_req = ''GET''
     \<and> store (world_of (only_in CACHE_DATA (url ex_api_req) ex_cached) []) CACHE_DATA (url ex_api_req)
         = Some ex_cached
     \<and> fst (handleApiRequest env_down ex_api_req
              (world_of (only_in CACHE_DATA (url ex_api_req) ex_cached) [])) = Inr ex_cached
     \<and> fetch env_up ex_api_req = Some ex_resp \<and> status ex_resp = 200
     \<and> fst (handleApiRequest env_up ex_api_req (world_of empty_store [])) = Inr ex_resp
     \<and> pending (snd (handleApiRequest env_up ex_api_req (world_of empty_store [])))
         = [DetachedPut CACHE_DATA ex_api_req ex_resp]
     \<and> store (run_task env_up (DetachedPut CACHE_DATA ex_api_req ex_resp)
                (snd (handleApiRequest env_up ex_api_req (world_of empty_store []))))
         CACHE_DATA (url ex_api_req) = Some ex_resp"
proof -
  have a: "fetch env_down ex_api_req = None" "http_method ex_api_req = ''GET''"
    "store (world_of (only_in CACHE_DATA (url ex_api_req) ex_cached) []) CACHE_PRIMARY (url ex_api_req) = None"
    "store (world_of (only_in CACHE_DATA (url ex_api_req) ex_cached) []) CACHE_SECONDARY (url ex_api_req) = None"
    "store (world_of (only_in CACHE_DATA (url ex_api_req) ex_cached) []) CACHE_DATA (url ex_api_req)
       = Some ex_cached"
    by (simp_all add: ex_defs)
  have b: "fetch env_up ex_api_req = Some ex_resp" "status ex_resp = 200"
    "pending (world_of empty_store []) = []"
    "\<not> fault_at (snd (handleApiRequest env_up ex_api_req (world_of empty_store []))) 0"
    by (simp_all add: ex_defs handleApiRequest_def fault_at_def)
  show ?thesis
    using api_strategy_network_first[of env_down ex_api_req
            "world_of (only_in CACHE_DATA (url ex_api_req) ex_cached) []"]
          api_strategy_network_first[of env_up ex_api_req "world_of empty_store []"] a b
    by simp
qed

text \<open>
  Claim C10: the offline body that the API strategy synthesizes when the fetch rejects
  and no cache has the request is a response with status 200, the default of
  \<^verbatim>\<open>new Response\<close>, which is the status the strategy itself treats as success.
\<close>

theorem offline_json_has_status_200:
  assumes "fetch e rq = None" and "\<forall>n. cache_match n rq w = None"
  shows "fst (handleApiRequest e rq w) = Inr offline_json \<and> status offline_json = 200
     \<and> response_ok offline_json"
  using assms caches_match_None[of rq w]
  by (simp add: handleApiRequest_def offline_json_def new_Response_def response_ok_def)


theorem offline_json_has_status_200_witness:
  "fetch env_down ex_api_req = None
     \<and> (\<forall>n. cache_match n ex_api_req (world_of empty_store []) = None)
     \<and> fst (handleApiRequest env_down ex_api_req (world_of empty_store [])) = Inr offline_json
     \<and> status offline_json = 200"
proof -
  have a: "fetch env_down ex_api_req = None" by (simp add: ex_defs)
  have b: "\<forall>n. cache_match n ex_api_req (world_of empty_store []) = None"
    by (simp add: cache_match_def ex_defs)
  show ?thesis using offline_json_has_status_200[OF a b] a b by simp
qed

subsection \<open>Effects of the primitive operations\<close>

lemma store_emit [simp]: "store (emit ev w) = store w"
  and faults_emit [simp]: "faults (emit ev w) = faults w"
  and read_faults_emit [simp]: "read_faults (emit ev w) = read_faults w"
  and pending_emit [simp]: "pending (emit ev w) = pending w"
  and journal_emit [simp]: "journal (emit ev w) = journal w @ [ev]"
  by (simp_all add: emit_def)

lemma store_console_log [simp]: "store (console_log m w) = store w"
  and faults_console_log [simp]: "faults (console_log m w) = faults w"
  and read_faults_console_log [simp]: "read_faults (console_log m w) = read_faults w"
  and pending_console_log [simp]: "pending (console_log m w) = pending w"
  and journal_console_log [simp]: "journal (console_log m w) = journal w @ [ConsoleLog m]"
  by (simp_all add: console_log_def)

lemma store_console_error [simp]: "store (console_error m w) = store w"
  and faults_console_error [simp]: "faults (console_error m w) = faults w"
  and read_faults_console_error [simp]: "read_faults (console_error m w) = read_faults w"
  and pending_console_error [simp]: "pending (console_error m w) = pending w"
  and journal_console_error [simp]: "journal (console_error m w) = journal w @ [ConsoleError m]"
  by (simp_all add: console_error_def)

subsection \<open>Health check and repair\<close>

lemma next_read_fault_proj [simp]:
  "store (snd (next_read_fault w)) = store w"
  "faults (snd (next_read_fault w)) = faults w"
  "journal (snd (next_read_fault w)) = journal w"
  "pending (snd (next_read_fault w)) = pending w"
  "read_faults (snd (next_read_fault w)) = tl (read_faults w)"
  by (simp_all add: next_read_fault_def split: list.splits)

lemma next_read_fault_fst: "fst (next_read_fault w) = read_fault_within w 1"
  by (simp add: next_read_fault_def read_fault_within_def split: list.splits)

lemma read_fault_within_Suc:
  "read_fault_within w (Suc k) \<longleftrightarrow>
     fst (next_read_fault w) \<or> read_fault_within (snd (next_read_fault w)) k"
  by (auto simp add: next_read_fault_def read_fault_within_def split: list.splits)

lemma read_fault_within_0 [simp]: "\<not> read_fault_within w 0"
  by (simp add: read_fault_within_def)

lemma read_fault_within_cong:
  "read_faults w' = read_faults w \<Longrightarrow> read_fault_within w' k = read_fault_within w k"
  by (simp add: read_fault_within_def)

lemma read_fault_within_Nil: "read_faults w = [] \<Longrightarrow> \<not> read_fault_within w k"
  by (simp add: read_fault_within_def)

lemma present_count_store:
  "store w' = store w \<Longrightarrow> present_count e n as w' = present_count e n as w"
  by (simp add: present_count_def)

lemma present_count_Cons:
  "present_count e n (a # as) w =
     (case cache_match_url e n a w of Some r \<Rightarrow> if status r = 200 then 1 else 0 | None \<Rightarrow> 0)
     + present_count e n as w"
  by (simp add: present_count_def cache_match_url_def split: option.splits)

lemma present_count_Nil [simp]: "present_count e n [] w = 0"
  by (simp add: present_count_def)

lemma cache_match_url_store:
  "store w' = store w \<Longrightarrow> cache_match_url e n a w' = cache_match_url e n a w"
  by (simp add: cache_match_url_def)

lemma criticalAssetsCount_fst:
  "fst (criticalAssetsCount e n as c w) =
     (if read_fault_within w (length as) then None else Some (c + present_count e n as w))"
proof (induction as arbitrary: c w)
  case Nil
  then show ?case by simp
next
  case (Cons a as)
  let ?w1 = "snd (next_read_fault w)"
  have m: "cache_match_url e n a ?w1 = cache_match_url e n a w"
    by (rule cache_match_url_store) simp
  have p: "present_count e n as ?w1 = present_count e n as w"
    by (rule present_count_store) simp
  show ?case
    by (cases "fst (next_read_fault w)")
       (auto simp add: case_prod_beta Let_def Cons.IH read_fault_within_Suc[of w "length as"] m p
          present_count_Cons split: option.splits)
qed

lemma criticalAssetsCount_snd:
  "store (snd (criticalAssetsCount e n as c w)) = store w
   \<and> faults (snd (criticalAssetsCount e n as c w)) = faults w
   \<and> journal (snd (criticalAssetsCount e n as c w)) = journal w
   \<and> pending (snd (criticalAssetsCount e n as c w)) = pending w
   \<and> (read_faults w = [] \<longrightarrow> read_faults (snd (criticalAssetsCount e n as c w)) = [])"
proof (induction as arbitrary: c w)
  case Nil
  then show ?case by simp
next
  case (Cons a as)
  show ?case
    by (cases "fst (next_read_fault w)") (simp_all add: case_prod_beta Let_def Cons.IH)
qed

lemma check_one_fst:
  "fst (check_one e n w) \<longleftrightarrow>
     \<not> read_fault_within w (2 + length CRITICAL_ASSETS) \<and> meets_threshold e n w"
proof -
  let ?w1 = "snd (next_read_fault w)"
  let ?w2 = "snd (next_read_fault ?w1)"
  have r: "read_fault_within w (2 + length CRITICAL_ASSETS) \<longleftrightarrow>
      fst (next_read_fault w) \<or> fst (next_read_fault ?w1)
      \<or> read_fault_within ?w2 (length CRITICAL_ASSETS)"
    using read_fault_within_Suc[of w "Suc (length CRITICAL_ASSETS)"]
      read_fault_within_Suc[of ?w1 "length CRITICAL_ASSETS"] by simp
  have p: "present_count e n CRITICAL_ASSETS ?w2 = present_count e n CRITICAL_ASSETS w"
    by (rule present_count_store) simp
  have c: "fst (criticalAssetsCount e n CRITICAL_ASSETS 0 ?w2) =
     (if read_fault_within ?w2 (length CRITICAL_ASSETS) then None
      else Some (present_count e n CRITICAL_ASSETS w))"
    by (simp add: criticalAssetsCount_fst p)
  show ?thesis
    unfolding r check_one_def
    by (cases "criticalAssetsCount e n CRITICAL_ASSETS 0 ?w2")
       (use c in \<open>auto simp add: case_prod_beta Let_def meets_threshold_def mult.commute
          split: option.splits if_splits\<close>)
qed

lemma check_one_snd:
  "store (snd (check_one e n w)) = store w
   \<and> faults (snd (check_one e n w)) = faults w
   \<and> pending (snd (check_one e n w)) = pending w
   \<and> (read_faults w = [] \<longrightarrow> read_faults (snd (check_one e n w)) = [])
   \<and> (\<exists>ev. journal (snd (check_one e n w)) = journal w @ [ev]
          \<and> (is_error ev \<longleftrightarrow> read_fault_within w (2 + length CRITICAL_ASSETS))
          \<and> (is_error ev \<longrightarrow> ev = check_failed n))"
proof -
  let ?w1 = "snd (next_read_fault w)"
  let ?w2 = "snd (next_read_fault ?w1)"
  let ?p = "criticalAssetsCount e n CRITICAL_ASSETS 0 ?w2"
  have r: "read_fault_within w (2 + length CRITICAL_ASSETS) \<longleftrightarrow>
      fst (next_read_fault w) \<or> fst (next_read_fault ?w1)
      \<or> read_fault_within ?w2 (length CRITICAL_ASSETS)"
    using read_fault_within_Suc[of w "Suc (length CRITICAL_ASSETS)"]
      read_fault_within_Suc[of ?w1 "length CRITICAL_ASSETS"] by simp
  have c: "fst ?p = None \<longleftrightarrow> read_fault_within ?w2 (length CRITICAL_ASSETS)"
    by (simp add: criticalAssetsCount_fst)
  have s: "store (snd ?p) = store w" "faults (snd ?p) = faults w" "journal (snd ?p) = journal w"
    "pending (snd ?p) = pending w"
    "read_faults w = [] \<longrightarrow> read_faults (snd ?p) = []"
    using criticalAssetsCount_snd[of e n CRITICAL_ASSETS 0 ?w2] by simp_all
  show ?thesis
    unfolding r check_one_def
    by (cases ?p; cases "fst ?p")
       (use c s in \<open>auto simp add: case_prod_beta Let_def check_failed_def\<close>)
qed

lemma cache_put_store:
  "store (snd (cache_put n k r w)) = (if fault_at w 0 then store w else (store w)(n := (store w n)(k \<mapsto> r)))"
  by (auto simp add: io_defs fault_at_def Let_def split: list.splits)

lemma cache_put_fst: "fst (cache_put n k r w) = (\<not> fault_at w 0)"
  by (auto simp add: io_defs fault_at_def Let_def split: list.splits)

lemma cache_put_journal:
  "journal (snd (cache_put n k r w)) = journal w @ [CachePut n k (\<not> fault_at w 0)]"
  by (auto simp add: io_defs fault_at_def Let_def split: list.splits)

lemma cache_put_faults: "faults (snd (cache_put n k r w)) = tl (faults w)"
  by (auto simp add: io_defs Let_def split: list.splits)

lemma cache_put_read_faults: "read_faults (snd (cache_put n k r w)) = read_faults w"
  by (auto simp add: io_defs Let_def split: list.splits)

lemma fault_at_store: "faults w' = faults w \<Longrightarrow> fault_at w' i = fault_at w i"
  by (simp add: fault_at_def)

lemma journal_grows_refl: "journal_grows w w"
  by (simp add: journal_grows_def)

lemma journal_grows_trans: "journal_grows a b \<Longrightarrow> journal_grows b c \<Longrightarrow> journal_grows a c"
  by (auto simp add: journal_grows_def)

lemma new_events_trans:
  "journal_grows a b \<Longrightarrow> journal_grows b c \<Longrightarrow> new_events a c = new_events a b @ new_events b c"
  by (auto simp add: journal_grows_def new_events_def)

lemma journal_grows_log: "journal_grows w (console_log m w)"
  by (simp add: journal_grows_def)

lemma new_events_log: "new_events w (console_log m w) = [ConsoleLog m]"
  by (simp add: new_events_def)

lemma repair_entry_cases:
  "repair_entry e n h a w =
     (let w0 = snd (next_read_fault w) in
      if fst (next_read_fault w) then console_error (''[Service Worker] Failed to repair '' @ a @ '':'') w0
      else case store w h (resolve e a) of
             None \<Rightarrow> w0
           | Some r \<Rightarrow>
               if fault_at w 0
               then console_error (''[Service Worker] Failed to repair '' @ a @ '':'')
                      (snd (cache_put n (resolve e a) r w0))
               else console_log (''[Service Worker] Repaired '' @ a @ '' in '' @ cache_name n)
                      (snd (cache_put n (resolve e a) r w0)))"
proof -
  have f: "fault_at (snd (next_read_fault w)) 0 = fault_at w 0"
    by (rule fault_at_store) simp
  show ?thesis
    by (auto simp add: repair_entry_def Let_def case_prod_beta cache_match_url_def cache_put_fst f
        split: option.splits)
qed

lemma repair_entry_store:
  "store (repair_entry e n h a w) =
     (if fst (next_read_fault w) \<or> fault_at w 0 then store w
      else case store w h (resolve e a) of
             None \<Rightarrow> store w
           | Some r \<Rightarrow> (store w)(n := (store w n)(resolve e a \<mapsto> r)))"
proof -
  have f: "fault_at (snd (next_read_fault w)) 0 = fault_at w 0"
    by (rule fault_at_store) simp
  show ?thesis
    by (auto simp add: repair_entry_cases Let_def cache_put_store f split: option.splits)
qed

lemma repair_entry_journal:
  "\<exists>evs. journal (repair_entry e n h a w) = journal w @ evs
      \<and> (\<forall>ev\<in>set evs. is_error ev \<longrightarrow> ev = repair_failed a)
      \<and> (fst (next_read_fault w) \<or> (store w h (resolve e a) \<noteq> None \<and> fault_at w 0)
           \<longleftrightarrow> repair_failed a \<in> set evs)"
proof -
  have f: "fault_at (snd (next_read_fault w)) 0 = fault_at w 0"
    by (rule fault_at_store) simp
  show ?thesis
    by (auto simp add: repair_entry_cases Let_def cache_put_journal f repair_failed_def
        split: option.splits)
qed

lemma repair_entry_faults:
  "read_faults w = [] \<Longrightarrow> read_faults (repair_entry e n h a w) = []"
  "faults w = [] \<Longrightarrow> faults (repair_entry e n h a w) = []"
  by (auto simp add: repair_entry_cases Let_def cache_put_faults cache_put_read_faults
      split: option.splits)

lemma journal_grows_repair_entry: "journal_grows w (repair_entry e n h a w)"
  using repair_entry_journal[of e n h a w] by (auto simp add: journal_grows_def)

lemma repair_entry_other: "m \<noteq> n \<Longrightarrow> store (repair_entry e n h a w) m = store w m"
  by (simp add: repair_entry_store split: option.splits)

lemma repair_entry_keeps:
  "n \<noteq> h \<Longrightarrow> store w h k = Some r \<Longrightarrow> store w n k = Some r \<Longrightarrow>
   store (repair_entry e n h a w) n k = Some r"
  by (auto simp add: repair_entry_store split: option.splits)

lemma repair_entry_copies:
  "store w h (resolve e a) = Some r \<Longrightarrow>
   store (repair_entry e n h a w) n (resolve e a) = Some r
   \<or> repair_failed a \<in> set (new_events w (repair_entry e n h a w))"
proof -
  assume d: "store w h (resolve e a) = Some r"
  obtain evs where j: "journal (repair_entry e n h a w) = journal w @ evs"
    and ev: "fst (next_read_fault w) \<or> (store w h (resolve e a) \<noteq> None \<and> fault_at w 0)
           \<longleftrightarrow> repair_failed a \<in> set evs"
    using repair_entry_journal[of e n h a w] by blast
  have ne: "new_events w (repair_entry e n h a w) = evs" using j by (simp add: new_events_def)
  show ?thesis
  proof (cases "fst (next_read_fault w) \<or> fault_at w 0")
    case True
    then show ?thesis using ev d ne by auto
  next
    case False
    then show ?thesis using d by (simp add: repair_entry_store)
  qed
qed

lemma repair_entry_no_fault:
  "read_faults w = [] \<Longrightarrow> faults w = [] \<Longrightarrow>
   (\<forall>ev\<in>set (new_events w (repair_entry e n h a w)). \<not> is_error ev)"
proof -
  assume rf: "read_faults w = []" and f: "faults w = []"
  obtain evs where j: "journal (repair_entry e n h a w) = journal w @ evs"
    and er: "\<forall>ev\<in>set evs. is_error ev \<longrightarrow> ev = repair_failed a"
    and ev: "fst (next_read_fault w) \<or> (store w h (resolve e a) \<noteq> None \<and> fault_at w 0)
           \<longleftrightarrow> repair_failed a \<in> set evs"
    using repair_entry_journal[of e n h a w] by blast
  have "\<not> fst (next_read_fault w)" "\<not> fault_at w 0"
    using rf f by (simp_all add: next_read_fault_def fault_at_def)
  then have "repair_failed a \<notin> set evs" using ev by simp
  then show ?thesis using er j by (auto simp add: new_events_def)
qed

lemma repair_assets_other: "m \<noteq> n \<Longrightarrow> store (repair_assets e n h as w) m = store w m"
  by (induction as arbitrary: w) (simp_all add: repair_entry_other)

lemma journal_grows_repair_assets: "journal_grows w (repair_assets e n h as w)"
proof (induction as arbitrary: w)
  case Nil
  then show ?case by (simp add: journal_grows_refl)
next
  case (Cons a as)
  show ?case
    using journal_grows_trans[OF journal_grows_repair_entry Cons.IH] by simp
qed

lemma repair_assets_keeps:
  "n \<noteq> h \<Longrightarrow> store w h k = Some r \<Longrightarrow> store w n k = Some r \<Longrightarrow>
   store (repair_assets e n h as w) n k = Some r"
proof (induction as arbitrary: w)
  case Nil
  then show ?case by simp
next
  case (Cons a as)
  have h: "store (repair_entry e n h a w) h k = Some r"
    using Cons.prems by (simp add: repair_entry_other)
  have n: "store (repair_entry e n h a w) n k = Some r"
    using Cons.prems by (simp add: repair_entry_keeps)
  show ?case using Cons.IH[OF Cons.prems(1) h n] by simp
qed

lemma repair_assets_copies:
  assumes "n \<noteq> h" and "a \<in> set as" and "store w h (resolve e a) = Some r"
  shows "store (repair_assets e n h as w) n (resolve e a) = Some r
     \<or> repair_failed a \<in> set (new_events w (repair_assets e n h as w))"
  using assms(2,3)
proof (induction as arbitrary: w)
  case Nil
  then show ?case by simp
next
  case (Cons a0 as)
  let ?w = "repair_entry e n h a0 w"
  let ?w' = "repair_assets e n h as ?w"
  have ne: "new_events w ?w' = new_events w ?w @ new_events ?w ?w'"
    by (rule new_events_trans[OF journal_grows_repair_entry journal_grows_repair_assets])
  have hw: "store ?w h (resolve e a) = Some r"
    using Cons.prems(2) assms(1) by (simp add: repair_entry_other)
  show ?case
  proof (cases "a = a0")
    case True
    have "store ?w n (resolve e a) = Some r \<or> repair_failed a \<in> set (new_events w ?w)"
      using repair_entry_copies[OF Cons.prems(2), of n] True by simp
    then show ?thesis
    proof
      assume "store ?w n (resolve e a) = Some r"
      then show ?thesis using repair_assets_keeps[OF assms(1) hw] by simp
    next
      assume "repair_failed a \<in> set (new_events w ?w)"
      then show ?thesis using ne by simp
    qed
  next
    case False
    then have "a \<in> set as" using Cons.prems(1) by simp
    then have "store ?w' n (resolve e a) = Some r \<or> repair_failed a \<in> set (new_events ?w ?w')"
      using Cons.IH[OF _ hw] by simp
    then show ?thesis using ne by auto
  qed
qed

lemma repair_assets_no_fault:
  "read_faults w = [] \<Longrightarrow> faults w = [] \<Longrightarrow>
   read_faults (repair_assets e n h as w) = [] \<and> faults (repair_assets e n h as w) = []
   \<and> (\<forall>ev\<in>set (new_events w (repair_assets e n h as w)). \<not> is_error ev)"
proof (induction as arbitrary: w)
  case Nil
  then show ?case by (simp add: new_events_def)
next
  case (Cons a0 as)
  let ?w = "repair_entry e n h a0 w"
  let ?w' = "repair_assets e n h as ?w"
  have ne: "new_events w ?w' = new_events w ?w @ new_events ?w ?w'"
    by (rule new_events_trans[OF journal_grows_repair_entry journal_grows_repair_assets])
  have f: "read_faults ?w = []" "faults ?w = []"
    using Cons.prems by (simp_all add: repair_entry_faults)
  show ?case
    using Cons.IH[OF f] repair_entry_no_fault[OF Cons.prems, of e n h a0] ne by auto
qed

lemma repair_assets_errors:
  "\<forall>ev\<in>set (new_events w (repair_assets e n h as w)). is_error ev \<longrightarrow> (\<exists>a\<in>set as. ev = repair_failed a)"
proof (induction as arbitrary: w)
  case Nil
  then show ?case by (simp add: new_events_def)
next
  case (Cons a0 as)
  let ?w = "repair_entry e n h a0 w"
  let ?w' = "repair_assets e n h as ?w"
  have ne: "new_events w ?w' = new_events w ?w @ new_events ?w ?w'"
    by (rule new_events_trans[OF journal_grows_repair_entry journal_grows_repair_assets])
  obtain evs where j: "journal ?w = journal w @ evs"
    and er: "\<forall>ev\<in>set evs. is_error ev \<longrightarrow> ev = repair_failed a0"
    using repair_entry_journal[of e n h a0 w] by blast
  have "new_events w ?w = evs" using j by (simp add: new_events_def)
  then show ?case using Cons.IH[of ?w] er ne by auto
qed

lemma repairCache_cases:
  "repairCache e c w =
     (if read_fault_within w 2
      then console_error (''[Service Worker] Failed to repair '' @ cache_name c @ '':'')
             (if fst (next_read_fault w) then snd (next_read_fault w)
              else snd (next_read_fault (snd (next_read_fault w))))
      else console_log (''[Service Worker] '' @ cache_name c @ '' repair completed'')
             (repair_assets e c (other_tier c) CRITICAL_ASSETS
                (snd (next_read_fault (snd (next_read_fault w))))))"
proof -
  have r: "read_fault_within w 2 \<longleftrightarrow>
      fst (next_read_fault w) \<or> fst (next_read_fault (snd (next_read_fault w)))"
    using read_fault_within_Suc[of w 1] read_fault_within_Suc[of "snd (next_read_fault w)" 0]
    by (simp add: numeral_2_eq_2)
  show ?thesis
    unfolding r by (simp add: repairCache_def Let_def case_prod_beta other_tier_def)
qed

lemma repairCache_other: "m \<noteq> c \<Longrightarrow> store (repairCache e c w) m = store w m"
  by (simp add: repairCache_cases repair_assets_other)

lemma journal_grows_repairCache: "journal_grows w (repairCache e c w)"
proof -
  let ?w2 = "snd (next_read_fault (snd (next_read_fault w)))"
  have "journal_grows ?w2 (repair_assets e c (other_tier c) CRITICAL_ASSETS ?w2)"
    by (rule journal_grows_repair_assets)
  then show ?thesis
    by (auto simp add: repairCache_cases journal_grows_def)
qed

lemma repairCache_copies:
  assumes "c = CACHE_PRIMARY \<or> c = CACHE_SECONDARY"
    and "a \<in> set CRITICAL_ASSETS" and "store w (other_tier c) (resolve e a) = Some r"
  shows "store (repairCache e c w) c (resolve e a) = Some r
     \<or> repair_failed a \<in> set (new_events w (repairCache e c w))
     \<or> repair_failed (cache_name c) \<in> set (new_events w (repairCache e c w))"
proof (cases "read_fault_within w 2")
  case True
  then show ?thesis
    by (auto simp add: repairCache_cases new_events_def repair_failed_def)
next
  case False
  let ?w2 = "snd (next_read_fault (snd (next_read_fault w)))"
  let ?w3 = "repair_assets e c (other_tier c) CRITICAL_ASSETS ?w2"
  have ne: "c \<noteq> other_tier c" using assms(1) by (auto simp add: other_tier_def)
  have d: "store ?w2 (other_tier c) (resolve e a) = Some r" using assms(3) by simp
  have 1: "store ?w3 c (resolve e a) = Some r \<or> repair_failed a \<in> set (new_events ?w2 ?w3)"
    using repair_assets_copies[OF ne assms(2) d] .
  obtain evs where j: "journal ?w3 = journal ?w2 @ evs"
    using journal_grows_repair_assets[of ?w2 e c "other_tier c" CRITICAL_ASSETS]
    by (auto simp add: journal_grows_def)
  have "set (new_events ?w2 ?w3) \<subseteq> set (new_events w (repairCache e c w))"
    using j False by (auto simp add: repairCache_cases new_events_def)
  moreover have "store (repairCache e c w) = store ?w3"
    using False by (simp add: repairCache_cases)
  ultimately show ?thesis using 1 by auto
qed

lemma repairCache_no_fault:
  assumes "read_faults w = []" and "faults w = []"
  shows "read_faults (repairCache e c w) = [] \<and> faults (repairCache e c w) = []
     \<and> (\<forall>ev\<in>set (new_events w (repairCache e c w)). \<not> is_error ev)
     \<and> (c = CACHE_PRIMARY \<or> c = CACHE_SECONDARY \<longrightarrow>
          (\<forall>a\<in>set CRITICAL_ASSETS. \<forall>r. store w (other_tier c) (resolve e a) = Some r \<longrightarrow>
             store (repairCache e c w) c (resolve e a) = Some r))"
proof -
  let ?w2 = "snd (next_read_fault (snd (next_read_fault w)))"
  let ?w3 = "repair_assets e c (other_tier c) CRITICAL_ASSETS ?w2"
  have nf: "\<not> read_fault_within w 2" using assms(1) by (rule read_fault_within_Nil)
  have f2: "read_faults ?w2 = []" "faults ?w2 = []" using assms by simp_all
  have 3: "read_faults ?w3 = [] \<and> faults ?w3 = []
     \<and> (\<forall>ev\<in>set (new_events ?w2 ?w3). \<not> is_error ev)"
    using repair_assets_no_fault[OF f2] .
  obtain evs where j: "journal ?w3 = journal ?w2 @ evs"
    using journal_grows_repair_assets[of ?w2 e c "other_tier c" CRITICAL_ASSETS]
    by (auto simp add: journal_grows_def)
  have ne: "new_events w (repairCache e c w) =
      new_events ?w2 ?w3 @ [ConsoleLog (''[Service Worker] '' @ cache_name c @ '' repair completed'')]"
    using nf j by (simp add: repairCache_cases new_events_def)
  have a: "read_faults (repairCache e c w) = [] \<and> faults (repairCache e c w) = []
     \<and> (\<forall>ev\<in>set (new_events w (repairCache e c w)). \<not> is_error ev)"
    using 3 nf by (simp add: ne) (simp add: repairCache_cases)
  have b: "c = CACHE_PRIMARY \<or> c = CACHE_SECONDARY \<longrightarrow>
          (\<forall>a\<in>set CRITICAL_ASSETS. \<forall>r. store w (other_tier c) (resolve e a) = Some r \<longrightarrow>
             store (repairCache e c w) c (resolve e a) = Some r)"
  proof (intro impI ballI allI)
    fix a r
    assume c: "c = CACHE_PRIMARY \<or> c = CACHE_SECONDARY" and m: "a \<in> set CRITICAL_ASSETS"
      and d: "store w (other_tier c) (resolve e a) = Some r"
    have "store (repairCache e c w) c (resolve e a) = Some r
     \<or> repair_failed a \<in> set (new_events w (repairCache e c w))
     \<or> repair_failed (cache_name c) \<in> set (new_events w (repairCache e c w))"
      using repairCache_copies[OF c m d] .
    moreover have "is_error (repair_failed a)" "is_error (repair_failed (cache_name c))"
      by (simp_all add: repair_failed_def)
    ultimately show "store (repairCache e c w) c (resolve e a) = Some r" using a by blast
  qed
  show ?thesis using a b by blast
qed

lemma set_data_log: "console_log m (set_data d w) = set_data d (console_log m w)"
  and set_data_error: "console_error m (set_data d w) = set_data d (console_error m w)"
  by (simp_all add: set_data_def io_defs)

lemma set_data_read:
  "next_read_fault (set_data d w) = (fst (next_read_fault w), set_data d (snd (next_read_fault w)))"
  by (simp add: next_read_fault_def set_data_def split: list.splits)

lemma set_data_put:
  "n \<noteq> CACHE_DATA \<Longrightarrow>
   cache_put n k r (set_data d w) = (fst (cache_put n k r w), set_data d (snd (cache_put n k r w)))"
  by (auto simp add: set_data_def io_defs Let_def fun_upd_twist split: list.splits)

lemma set_data_match:
  "h \<noteq> CACHE_DATA \<Longrightarrow> cache_match_url e h a (set_data d w) = cache_match_url e h a w"
  by (simp add: set_data_def cache_match_url_def)

lemma set_data_repair_entry:
  "n \<noteq> CACHE_DATA \<Longrightarrow> h \<noteq> CACHE_DATA \<Longrightarrow>
   repair_entry e n h a (set_data d w) = set_data d (repair_entry e n h a w)"
  by (simp add: repair_entry_def set_data_read set_data_match set_data_put set_data_log
      set_data_error Let_def case_prod_beta split: option.splits)

lemma set_data_repair_assets:
  "n \<noteq> CACHE_DATA \<Longrightarrow> h \<noteq> CACHE_DATA \<Longrightarrow>
   repair_assets e n h as (set_data d w) = set_data d (repair_assets e n h as w)"
  by (induction as arbitrary: w) (simp_all add: set_data_repair_entry)

lemma set_data_count:
  "n \<noteq> CACHE_DATA \<Longrightarrow>
   criticalAssetsCount e n as c (set_data d w) =
     (fst (criticalAssetsCount e n as c w), set_data d (snd (criticalAssetsCount e n as c w)))"
  by (induction as arbitrary: c w)
     (simp_all add: set_data_read set_data_match Let_def case_prod_beta)

lemma set_data_check_one:
  "n \<noteq> CACHE_DATA \<Longrightarrow>
   check_one e n (set_data d w) = (fst (check_one e n w), set_data d (snd (check_one e n w)))"
  by (simp add: check_one_def set_data_read set_data_count set_data_log set_data_error Let_def
      case_prod_beta split: option.splits)

lemma set_data_repairCache:
  "c = CACHE_PRIMARY \<or> c = CACHE_SECONDARY \<Longrightarrow>
   repairCache e c (set_data d w) = set_data d (repairCache e c w)"
  by (auto simp add: repairCache_def Let_def case_prod_beta set_data_read set_data_repair_assets
      set_data_log set_data_error)

lemma set_data_checkCacheHealth:
  "checkCacheHealth e (set_data d w) = set_data d (checkCacheHealth e w)"
  by (simp add: checkCacheHealth_def Let_def case_prod_beta set_data_log set_data_check_one
      set_data_repairCache)

lemma meets_threshold_store: "store w' = store w \<Longrightarrow> meets_threshold e n w' = meets_threshold e n w"
  by (simp add: meets_threshold_def present_count_def)

lemma present_count_filter:
  "present_count e n as w =
     length (filter (\<lambda>a. \<exists>r. store w n (resolve e a) = Some r \<and> status r = 200) as)"
proof -
  have "(\<lambda>a. case store w n (resolve e a) of None \<Rightarrow> False | Some r \<Rightarrow> status r = 200)
      = (\<lambda>a. \<exists>r. store w n (resolve e a) = Some r \<and> status r = 200)"
    by (rule ext) (simp split: option.splits)
  then show ?thesis by (simp add: present_count_def)
qed

text \<open>
  Claim C8, as stated, fails when a read of the check raises. Primary holds all six
  critical assets with status 200, but opening it for the check raises: the \<^verbatim>\<open>catch\<close>
  leaves the verdict at \<^verbatim>\<open>false\<close>, so the cache is found unhealthy (and then repaired)
  although its count is 6 of 6.
\<close>

theorem complete_tier_found_unhealthy_counterexample:
  "length CRITICAL_ASSETS = 6
     \<and> present_count env_down CACHE_PRIMARY CRITICAL_ASSETS (world_reads complete_primary [True]) = 6
     \<and> meets_threshold env_down CACHE_PRIMARY (world_reads complete_primary [True])
     \<and> \<not> fst (check_one env_down CACHE_PRIMARY (world_reads complete_primary [True]))
     \<and> \<not> fst (check_one env_down CACHE_PRIMARY
               (console_log ''[Service Worker] Running cache health check...''
                  (world_reads complete_primary [True])))"
proof -
  have 1: "length CRITICAL_ASSETS = 6" by (simp add: CRITICAL_ASSETS_def)
  have 2: "present_count env_down CACHE_PRIMARY CRITICAL_ASSETS (world_reads complete_primary [True]) = 6"
    by (simp add: present_count_def CRITICAL_ASSETS_def complete_primary_def resolve_def ex_defs)
  have 3: "meets_threshold env_down CACHE_PRIMARY (world_reads complete_primary [True])"
    by (simp add: meets_threshold_def 1 2)
  have 4: "\<not> fst (check_one env_down CACHE_PRIMARY (world_reads complete_primary [True]))"
    by (simp add: check_one_def next_read_fault_def ex_defs Let_def)
  have 5: "\<not> fst (check_one env_down CACHE_PRIMARY
               (console_log ''[Service Worker] Running cache health check...''
                  (world_reads complete_primary [True])))"
    by (simp add: check_one_def next_read_fault_def ex_defs io_defs Let_def)
  show ?thesis using 1 2 3 4 5 by simp
qed

text \<open>
  Claim C8, amended. The check declares a cache (Primary or Secondary) healthy if and
  only if none of its reads raises (opening the cache, listing its keys, looking up each
  critical asset) and at least 80 percent of the critical assets are present in it with
  status 200. For a cache found unhealthy, every critical asset that the other cache
  holds at the time of the repair is copied into it, except an asset whose own lookup
  or write raised, which is logged and skipped, and except when opening one of the two
  caches raises, which gives up the repair of that cache. Primary is repaired first,
  from Secondary as it was; Secondary is then repaired from Primary as it is after that.
  A cache found healthy is left as it is. When no read and no write raises, the verdict
  is the threshold alone and every asset of the donor is copied. The Data cache is
  neither read nor written.
\<close>

theorem health_check_and_repair:
  fixes e w
  defines "w0 \<equiv> console_log ''[Service Worker] Running cache health check...'' w"
  defines "h1 \<equiv> fst (check_one e CACHE_PRIMARY w0)"
  defines "w1 \<equiv> snd (check_one e CACHE_PRIMARY w0)"
  defines "h2 \<equiv> fst (check_one e CACHE_SECONDARY w1)"
  defines "w2 \<equiv> snd (check_one e CACHE_SECONDARY w1)"
  defines "w3 \<equiv> (if \<not> h1
                 then repairCache e CACHE_PRIMARY
                        (console_log (''[Service Worker] Repairing '' @ cache_name CACHE_PRIMARY @ ''...'') w2)
                 else w2)"
  defines "w' \<equiv> checkCacheHealth e w"
  shows "w' = (if \<not> h2
               then repairCache e CACHE_SECONDARY
                      (console_log (''[Service Worker] Repairing '' @ cache_name CACHE_SECONDARY @ ''...'') w3)
               else w3)
     \<and> (h1 \<longleftrightarrow> \<not> read_fault_within w (2 + length CRITICAL_ASSETS) \<and> meets_threshold e CACHE_PRIMARY w)
     \<and> (h2 \<longleftrightarrow> \<not> read_fault_within w1 (2 + length CRITICAL_ASSETS) \<and> meets_threshold e CACHE_SECONDARY w)
     \<and> (\<forall>n. meets_threshold e n w \<longleftrightarrow>
            0.8 * real (length CRITICAL_ASSETS) \<le>
            real (length (filter (\<lambda>a. \<exists>r. store w n (resolve e a) = Some r \<and> status r = 200)
                            CRITICAL_ASSETS)))
     \<and> (\<not> h1 \<longrightarrow>
          (\<forall>a\<in>set CRITICAL_ASSETS. \<forall>r. store w CACHE_SECONDARY (resolve e a) = Some r \<longrightarrow>
             store w' CACHE_PRIMARY (resolve e a) = Some r
             \<or> repair_failed a \<in> set (new_events w2 w3)
             \<or> repair_failed (cache_name CACHE_PRIMARY) \<in> set (new_events w2 w3)))
     \<and> (\<not> h2 \<longrightarrow>
          (\<forall>a\<in>set CRITICAL_ASSETS. \<forall>r. store w' CACHE_PRIMARY (resolve e a) = Some r \<longrightarrow>
             store w' CACHE_SECONDARY (resolve e a) = Some r
             \<or> repair_failed a \<in> set (new_events w3 w')
             \<or> repair_failed (cache_name CACHE_SECONDARY) \<in> set (new_events w3 w')))
     \<and> (h1 \<longrightarrow> store w' CACHE_PRIMARY = store w CACHE_PRIMARY)
     \<and> (h2 \<longrightarrow> store w' CACHE_SECONDARY = store w CACHE_SECONDARY)
     \<and> (read_faults w = [] \<and> faults w = [] \<longrightarrow>
          (h1 \<longleftrightarrow> meets_threshold e CACHE_PRIMARY w)
          \<and> (h2 \<longleftrightarrow> meets_threshold e CACHE_SECONDARY w)
          \<and> (\<not> h1 \<longrightarrow>
               (\<forall>a\<in>set CRITICAL_ASSETS. \<forall>r. store w CACHE_SECONDARY (resolve e a) = Some r \<longrightarrow>
                  store w' CACHE_PRIMARY (resolve e a) = Some r))
          \<and> (\<not> h2 \<longrightarrow>
               (\<forall>a\<in>set CRITICAL_ASSETS. \<forall>r. store w' CACHE_PRIMARY (resolve e a) = Some r \<longrightarrow>
                  store w' CACHE_SECONDARY (resolve e a) = Some r)))
     \<and> store w' CACHE_DATA = store w CACHE_DATA
     \<and> (\<forall>d. checkCacheHealth e (set_data d w) = set_data d w')"
proof -
  define lp where "lp = console_log (''[Service Worker] Repairing '' @ cache_name CACHE_PRIMARY @ ''...'') w2"
  define ls where "ls = console_log (''[Service Worker] Repairing '' @ cache_name CACHE_SECONDARY @ ''...'') w3"
  have w3: "w3 = (if \<not> h1 then repairCache e CACHE_PRIMARY lp else w2)"
    by (simp add: w3_def lp_def)
  have c0: "w' = (if \<not> h2 then repairCache e CACHE_SECONDARY ls else w3)"
    unfolding w'_def checkCacheHealth_def Let_def case_prod_beta ls_def w3_def w2_def h2_def w1_def
      h1_def w0_def ..
  have s0: "store w0 = store w" "faults w0 = faults w" "read_faults w0 = read_faults w"
    by (simp_all add: w0_def)
  have s1: "store w1 = store w" "faults w1 = faults w"
    "read_faults w = [] \<longrightarrow> read_faults w1 = []"
    using check_one_snd[of e CACHE_PRIMARY w0] by (simp_all add: w1_def s0)
  have s2: "store w2 = store w" "faults w2 = faults w"
    "read_faults w = [] \<longrightarrow> read_faults w2 = []"
    using check_one_snd[of e CACHE_SECONDARY w1] s1 by (simp_all add: w2_def)
  have c1: "h1 \<longleftrightarrow> \<not> read_fault_within w (2 + length CRITICAL_ASSETS) \<and> meets_threshold e CACHE_PRIMARY w"
    unfolding h1_def check_one_fst
    using read_fault_within_cong[OF s0(3)] meets_threshold_store[OF s0(1)] by simp
  have c2: "h2 \<longleftrightarrow> \<not> read_fault_within w1 (2 + length CRITICAL_ASSETS) \<and> meets_threshold e CACHE_SECONDARY w"
    unfolding h2_def check_one_fst using meets_threshold_store[OF s1(1)] by simp
  have c3: "\<forall>n. meets_threshold e n w \<longleftrightarrow>
            0.8 * real (length CRITICAL_ASSETS) \<le>
            real (length (filter (\<lambda>a. \<exists>r. store w n (resolve e a) = Some r \<and> status r = 200)
                            CRITICAL_ASSETS))"
    by (simp add: meets_threshold_def present_count_filter)
  have p': "store w' CACHE_PRIMARY = store w3 CACHE_PRIMARY"
    by (simp add: c0 repairCache_other ls_def)
  have glp: "journal_grows w2 lp" by (simp add: lp_def journal_grows_log)
  have gls: "journal_grows w3 ls" by (simp add: ls_def journal_grows_log)
  have n3: "\<not> h1 \<Longrightarrow> new_events w2 w3 = new_events w2 lp @ new_events lp (repairCache e CACHE_PRIMARY lp)"
    using new_events_trans[OF glp journal_grows_repairCache[of lp e CACHE_PRIMARY]]
    by (simp add: w3)
  have n4: "\<not> h2 \<Longrightarrow> new_events w3 w' = new_events w3 ls @ new_events ls (repairCache e CACHE_SECONDARY ls)"
    using new_events_trans[OF gls journal_grows_repairCache[of ls e CACHE_SECONDARY]]
    by (simp add: c0)
  have c4: "\<not> h1 \<longrightarrow>
          (\<forall>a\<in>set CRITICAL_ASSETS. \<forall>r. store w CACHE_SECONDARY (resolve e a) = Some r \<longrightarrow>
             store w' CACHE_PRIMARY (resolve e a) = Some r
             \<or> repair_failed a \<in> set (new_events w2 w3)
             \<or> repair_failed (cache_name CACHE_PRIMARY) \<in> set (new_events w2 w3))"
  proof (intro impI ballI allI)
    fix a r
    assume u: "\<not> h1" and a: "a \<in> set CRITICAL_ASSETS"
      and d: "store w CACHE_SECONDARY (resolve e a) = Some r"
    have "store lp (other_tier CACHE_PRIMARY) (resolve e a) = Some r"
      using d by (simp add: lp_def s2 other_tier_def)
    then have "store (repairCache e CACHE_PRIMARY lp) CACHE_PRIMARY (resolve e a) = Some r
       \<or> repair_failed a \<in> set (new_events lp (repairCache e CACHE_PRIMARY lp))
       \<or> repair_failed (cache_name CACHE_PRIMARY) \<in> set (new_events lp (repairCache e CACHE_PRIMARY lp))"
      using repairCache_copies[of CACHE_PRIMARY a lp e r] a by simp
    then show "store w' CACHE_PRIMARY (resolve e a) = Some r
             \<or> repair_failed a \<in> set (new_events w2 w3)
             \<or> repair_failed (cache_name CACHE_PRIMARY) \<in> set (new_events w2 w3)"
      using u p' n3 by (auto simp add: w3)
  qed
  have c5: "\<not> h2 \<longrightarrow>
          (\<forall>a\<in>set CRITICAL_ASSETS. \<forall>r. store w' CACHE_PRIMARY (resolve e a) = Some r \<longrightarrow>
             store w' CACHE_SECONDARY (resolve e a) = Some r
             \<or> repair_failed a \<in> set (new_events w3 w')
             \<or> repair_failed (cache_name CACHE_SECONDARY) \<in> set (new_events w3 w'))"
  proof (intro impI ballI allI)
    fix a r
    assume u: "\<not> h2" and a: "a \<in> set CRITICAL_ASSETS"
      and d: "store w' CACHE_PRIMARY (resolve e a) = Some r"
    have "store ls (other_tier CACHE_SECONDARY) (resolve e a) = Some r"
      using d p' by (simp add: ls_def other_tier_def)
    then have "store (repairCache e CACHE_SECONDARY ls) CACHE_SECONDARY (resolve e a) = Some r
       \<or> repair_failed a \<in> set (new_events ls (repairCache e CACHE_SECONDARY ls))
       \<or> repair_failed (cache_name CACHE_SECONDARY) \<in> set (new_events ls (repairCache e CACHE_SECONDARY ls))"
      using repairCache_copies[of CACHE_SECONDARY a ls e r] a by simp
    then show "store w' CACHE_SECONDARY (resolve e a) = Some r
             \<or> repair_failed a \<in> set (new_events w3 w')
             \<or> repair_failed (cache_name CACHE_SECONDARY) \<in> set (new_events w3 w')"
      using u n4 by (auto simp add: c0)
  qed
  have c6: "h1 \<longrightarrow> store w' CACHE_PRIMARY = store w CACHE_PRIMARY"
    by (simp add: p' w3 s2)
  have c7: "h2 \<longrightarrow> store w' CACHE_SECONDARY = store w CACHE_SECONDARY"
    by (simp add: c0 w3 s2 repairCache_other lp_def)
  have c8: "read_faults w = [] \<and> faults w = [] \<longrightarrow>
          (h1 \<longleftrightarrow> meets_threshold e CACHE_PRIMARY w)
          \<and> (h2 \<longleftrightarrow> meets_threshold e CACHE_SECONDARY w)
          \<and> (\<not> h1 \<longrightarrow>
               (\<forall>a\<in>set CRITICAL_ASSETS. \<forall>r. store w CACHE_SECONDARY (resolve e a) = Some r \<longrightarrow>
                  store w' CACHE_PRIMARY (resolve e a) = Some r))
          \<and> (\<not> h2 \<longrightarrow>
               (\<forall>a\<in>set CRITICAL_ASSETS. \<forall>r. store w' CACHE_PRIMARY (resolve e a) = Some r \<longrightarrow>
                  store w' CACHE_SECONDARY (resolve e a) = Some r))"
  proof
    assume f: "read_faults w = [] \<and> faults w = []"
    have r1: "read_faults w1 = []" using f s1 by simp
    have flp: "read_faults lp = []" "faults lp = []" using f s2 by (simp_all add: lp_def)
    have a1: "h1 \<longleftrightarrow> meets_threshold e CACHE_PRIMARY w"
      using c1 f by (simp add: read_fault_within_Nil)
    have a2: "h2 \<longleftrightarrow> meets_threshold e CACHE_SECONDARY w"
      using c2 r1 by (simp add: read_fault_within_Nil)
    have f3: "read_faults w3 = [] \<and> faults w3 = []"
      using repairCache_no_fault[OF flp, of e CACHE_PRIMARY] f s2 by (simp add: w3)
    then have fls: "read_faults ls = []" "faults ls = []" by (simp_all add: ls_def)
    have a3: "\<not> h1 \<longrightarrow>
               (\<forall>a\<in>set CRITICAL_ASSETS. \<forall>r. store w CACHE_SECONDARY (resolve e a) = Some r \<longrightarrow>
                  store w' CACHE_PRIMARY (resolve e a) = Some r)"
    proof (intro impI ballI allI)
      fix a r
      assume u: "\<not> h1" and a: "a \<in> set CRITICAL_ASSETS"
        and d: "store w CACHE_SECONDARY (resolve e a) = Some r"
      have "store lp (other_tier CACHE_PRIMARY) (resolve e a) = Some r"
        using d by (simp add: lp_def s2 other_tier_def)
      then have "store (repairCache e CACHE_PRIMARY lp) CACHE_PRIMARY (resolve e a) = Some r"
        using repairCache_no_fault[OF flp, of e CACHE_PRIMARY] a by blast
      then show "store w' CACHE_PRIMARY (resolve e a) = Some r"
        using u by (simp add: p' w3)
    qed
    have a4: "\<not> h2 \<longrightarrow>
               (\<forall>a\<in>set CRITICAL_ASSETS. \<forall>r. store w' CACHE_PRIMARY (resolve e a) = Some r \<longrightarrow>
                  store w' CACHE_SECONDARY (resolve e a) = Some r)"
    proof (intro impI ballI allI)
      fix a r
      assume u: "\<not> h2" and a: "a \<in> set CRITICAL_ASSETS"
        and d: "store w' CACHE_PRIMARY (resolve e a) = Some r"
      have "store ls (other_tier CACHE_SECONDARY) (resolve e a) = Some r"
        using d p' by (simp add: ls_def other_tier_def)
      then have "store (repairCache e CACHE_SECONDARY ls) CACHE_SECONDARY (resolve e a) = Some r"
        using repairCache_no_fault[OF fls, of e CACHE_SECONDARY] a by blast
      then show "store w' CACHE_SECONDARY (resolve e a) = Some r"
        using u by (simp add: c0)
    qed
    show "(h1 \<longleftrightarrow> meets_threshold e CACHE_PRIMARY w)
          \<and> (h2 \<longleftrightarrow> meets_threshold e CACHE_SECONDARY w)
          \<and> (\<not> h1 \<longrightarrow>
               (\<forall>a\<in>set CRITICAL_ASSETS. \<forall>r. store w CACHE_SECONDARY (resolve e a) = Some r \<longrightarrow>
                  store w' CACHE_PRIMARY (resolve e a) = Some r))
          \<and> (\<not> h2 \<longrightarrow>
               (\<forall>a\<in>set CRITICAL_ASSETS. \<forall>r. store w' CACHE_PRIMARY (resolve e a) = Some r \<longrightarrow>
                  store w' CACHE_SECONDARY (resolve e a) = Some r))"
      using a1 a2 a3 a4 by blast
  qed
  have c9: "store w' CACHE_DATA = store w CACHE_DATA"
    by (simp add: c0 w3 s2 repairCache_other lp_def ls_def)
  have c10: "\<forall>d. checkCacheHealth e (set_data d w) = set_data d w'"
    by (simp add: w'_def set_data_checkCacheHealth)
  have c0': "w' = (if \<not> h2
               then repairCache e CACHE_SECONDARY
                      (console_log (''[Service Worker] Repairing '' @ cache_name CACHE_SECONDARY @ ''...'') w3)
               else w3)"
    using c0 by (simp add: ls_def)
  show ?thesis using c0' c1 c2 c3 c4 c5 c6 c7 c8 c9 c10 by blast
qed

theorem health_check_and_repair_witness:
  "read_faults (world_of (only_in CACHE_SECONDARY ''https://e.org/index.html'' ex_cached) []) = []
     \<and> faults (world_of (only_in CACHE_SECONDARY ''https://e.org/index.html'' ex_cached) []) = []
     \<and> \<not> meets_threshold env_down CACHE_PRIMARY
           (world_of (only_in CACHE_SECONDARY ''https://e.org/index.html'' ex_cached) [])
     \<and> ''/index.html'' \<in> set CRITICAL_ASSETS
     \<and> store (world_of (only_in CACHE_SECONDARY ''https://e.org/index.html'' ex_cached) [])
          CACHE_SECONDARY (resolve env_down ''/index.html'') = Some ex_cached
     \<and> store (checkCacheHealth env_down
                (world_of (only_in CACHE_SECONDARY ''https://e.org/index.html'' ex_cached) []))
          CACHE_PRIMARY (resolve env_down ''/index.html'') = Some ex_cached"
proof -
  let ?w = "world_of (only_in CACHE_SECONDARY ''https://e.org/index.html'' ex_cached) []"
  have f: "read_faults ?w = []" "faults ?w = []" by (simp_all add: ex_defs)
  have u: "\<not> meets_threshold env_down CACHE_PRIMARY ?w"
    by (simp add: meets_threshold_def present_count_def CRITICAL_ASSETS_def ex_defs)
  have a: "''/index.html'' \<in> set CRITICAL_ASSETS" by (simp add: CRITICAL_ASSETS_def)
  have d: "store ?w CACHE_SECONDARY (resolve env_down ''/index.html'') = Some ex_cached"
    by (simp add: resolve_def ex_defs)
  show ?thesis
    using health_check_and_repair[of env_down ?w] f u a d by blast
qed

subsection \<open>Installation\<close>

lemma put_all_map_add: "put_all kvs m = m ++ map_of (rev kvs)"
proof (induction kvs arbitrary: m)
  case Nil
  then show ?case by simp
next
  case (Cons kv kvs)
  obtain k v where kv: "kv = (k, v)" by (cases kv)
  have "put_all (kv # kvs) m = (m(k \<mapsto> v)) ++ map_of (rev kvs)"
    unfolding kv put_all.simps by (rule Cons.IH)
  also have "\<dots> = m ++ ([k \<mapsto> v] ++ map_of (rev kvs))"
    by (rule ext) (simp add: map_add_def split: option.splits)
  also have "\<dots> = m ++ map_of (rev (kv # kvs))"
    by (simp add: kv)
  finally show ?case .
qed

lemma put_all_idem: "put_all kvs (put_all kvs m) = put_all kvs m"
  unfolding put_all_map_add by (rule ext) (simp add: map_add_def split: option.splits)

lemma cache_addAll_Nil: "cache_addAll e n [] w = (True, w)"
  by (simp add: cache_addAll_def)

lemma cache_addAll_store:
  "store (snd (cache_addAll e n rqs w)) =
     (if addAll_reaches e rqs \<and> \<not> fault_at w 0
      then (store w)(n := put_all (addAll_kvs e rqs) (store w n))
      else store w)"
  by (auto simp add: cache_addAll_def addAll_reaches_def addAll_kvs_def next_fault_def fault_at_def
      Let_def split: list.splits)

lemma cache_addAll_faults:
  "faults (snd (cache_addAll e n rqs w)) = (if addAll_reaches e rqs then tl (faults w) else faults w)"
  by (auto simp add: cache_addAll_def addAll_reaches_def next_fault_def Let_def split: list.splits)

lemma fault_at_cong: "faults w' = faults w \<Longrightarrow> fault_at w' i = fault_at w i"
  by (simp add: fault_at_def)

lemma fault_at_tl: "faults w' = tl (faults w) \<Longrightarrow> fault_at w' i = fault_at w (Suc i)"
  by (cases "faults w") (auto simp add: fault_at_def)

lemma install_store:
  fixes e w
  defines "rqs \<equiv> map (\<lambda>u. new_Request (resolve e u) ''reload'') CRITICAL_ASSETS"
  shows "store (install e w) =
     (if addAll_reaches e rqs
      then (store w)
            (CACHE_PRIMARY := (if fault_at w 0 then store w CACHE_PRIMARY
                               else put_all (addAll_kvs e rqs) (store w CACHE_PRIMARY)),
             CACHE_SECONDARY := (if fault_at w 1 then store w CACHE_SECONDARY
                               else put_all (addAll_kvs e rqs) (store w CACHE_SECONDARY)))
      else store w)"
proof -
  define w1 where "w1 = console_log ''[Service Worker] Caching critical assets in primary cache''
     (console_log ''[Service Worker] Installing...'' w)"
  define p2 where "p2 = cache_addAll e CACHE_PRIMARY rqs w1"
  define w3 where "w3 = (if fst p2 then snd p2
                else console_error ''[Service Worker] Primary cache installation failed:'' (snd p2))"
  define w4 where "w4 = console_log ''[Service Worker] Caching critical assets in secondary cache'' w3"
  define p5 where "p5 = cache_addAll e CACHE_SECONDARY rqs w4"
  define w6 where "w6 = (if fst p5 then snd p5
                else console_error ''[Service Worker] Secondary cache installation failed:'' (snd p5))"
  have inst: "store (install e w) = store w6"
    by (simp add: install_def Let_def case_prod_beta w6_def p5_def w4_def w3_def p2_def w1_def
        rqs_def OPTIONAL_ASSETS_def cache_addAll_Nil)
  have f1: "faults w1 = faults w" and s1: "store w1 = store w" by (simp_all add: w1_def)
  have s3: "store w3 = store (snd p2)" and f3: "faults w3 = faults (snd p2)" by (simp_all add: w3_def)
  have s4: "store w4 = store (snd p2)" and f4: "faults w4 = faults (snd p2)" by (simp_all add: w4_def s3 f3)
  have s6: "store w6 = store (snd p5)" by (simp add: w6_def)
  have a0: "fault_at w1 0 = fault_at w 0" using f1 by (rule fault_at_cong)
  show ?thesis
  proof (cases "addAll_reaches e rqs")
    case False
    then show ?thesis
      by (simp add: inst s6 p5_def cache_addAll_store s4 p2_def s1)
  next
    case True
    have "faults w4 = tl (faults w)" by (simp add: f4 p2_def cache_addAll_faults True f1)
    then have a1: "fault_at w4 0 = fault_at w 1" by (simp add: fault_at_tl)
    show ?thesis
      by (auto simp add: inst s6 p5_def cache_addAll_store s4 p2_def s1 True a0 a1 fun_eq_iff)
  qed
qed

lemma install_faults_Nil: "faults w = [] \<Longrightarrow> faults (install e w) = []"
  by (simp add: install_def Let_def case_prod_beta cache_addAll_faults OPTIONAL_ASSETS_def
      cache_addAll_Nil)


lemma put_all_hit:
  "distinct (map fst kvs) \<Longrightarrow> (k, v) \<in> set kvs \<Longrightarrow> put_all kvs m k = Some v"
proof -
  assume d: "distinct (map fst kvs)" and i: "(k, v) \<in> set kvs"
  have "distinct (map fst (rev kvs))" using d by (simp add: rev_map[symmetric])
  moreover have "(k, v) \<in> set (rev kvs)" using i by simp
  ultimately have "map_of (rev kvs) k = Some v" by (rule map_of_is_SomeI)
  then show ?thesis by (simp add: put_all_map_add map_add_def)
qed

lemma put_all_miss: "k \<notin> fst ` set kvs \<Longrightarrow> put_all kvs m k = m k"
proof -
  assume "k \<notin> fst ` set kvs"
  then have "map_of (rev kvs) k = None" by (simp add: map_of_eq_None_iff)
  then show ?thesis by (simp add: put_all_map_add map_add_def)
qed

lemma addAll_kvs_keys: "map fst (addAll_kvs e rqs) = map url rqs"
  by (simp add: addAll_kvs_def)

lemma addAll_kvs_mem:
  "addAll_reaches e rqs \<Longrightarrow> rq \<in> set rqs \<Longrightarrow> \<exists>x. fetch e rq = Some x \<and> (url rq, x) \<in> set (addAll_kvs e rqs)"
proof -
  assume r: "addAll_reaches e rqs" and m: "rq \<in> set rqs"
  have "case fetch e rq of None \<Rightarrow> False | Some x \<Rightarrow> response_ok x"
    using r m by (auto simp add: addAll_reaches_def list_all_iff)
  then obtain x where x: "fetch e rq = Some x" by (cases "fetch e rq") auto
  have "(url rq, the (fetch e rq)) \<in> set (zip (map url rqs) (map the (map (fetch e) rqs)))"
    using m by (induction rqs) auto
  then show ?thesis using x by (auto simp add: addAll_kvs_def)
qed

lemma install_overwrites:
  fixes e w
  defines "rqs \<equiv> map (\<lambda>u. new_Request (resolve e u) ''reload'') CRITICAL_ASSETS"
  assumes "addAll_reaches e rqs" and "a \<in> set CRITICAL_ASSETS"
  shows "fetch e (new_Request (resolve e a) ''reload'') \<noteq> None"
    and "\<not> fault_at w 0 \<Longrightarrow>
         store (install e w) CACHE_PRIMARY (resolve e a) = fetch e (new_Request (resolve e a) ''reload'')"
    and "\<not> fault_at w 1 \<Longrightarrow>
         store (install e w) CACHE_SECONDARY (resolve e a) = fetch e (new_Request (resolve e a) ''reload'')"
proof -
  have st: "store (install e w) =
     (if addAll_reaches e rqs
      then (store w)
            (CACHE_PRIMARY := (if fault_at w 0 then store w CACHE_PRIMARY
                               else put_all (addAll_kvs e rqs) (store w CACHE_PRIMARY)),
             CACHE_SECONDARY := (if fault_at w 1 then store w CACHE_SECONDARY
                               else put_all (addAll_kvs e rqs) (store w CACHE_SECONDARY)))
      else store w)"
    unfolding rqs_def by (rule install_store)
  have m: "new_Request (resolve e a) ''reload'' \<in> set rqs" using assms(3) by (simp add: rqs_def)
  obtain x where x: "fetch e (new_Request (resolve e a) ''reload'') = Some x"
    and i: "(url (new_Request (resolve e a) ''reload''), x) \<in> set (addAll_kvs e rqs)"
    using addAll_kvs_mem[OF assms(2) m] by blast
  have d: "distinct (map fst (addAll_kvs e rqs))"
    using assms(2) by (simp add: addAll_kvs_keys addAll_reaches_def)
  have h: "\<And>m. put_all (addAll_kvs e rqs) m (resolve e a) = Some x"
    using put_all_hit[OF d, of "resolve e a" x] i by (simp add: new_Request_def)
  show "fetch e (new_Request (resolve e a) ''reload'') \<noteq> None" using x by simp
  show "\<not> fault_at w 0 \<Longrightarrow>
         store (install e w) CACHE_PRIMARY (resolve e a) = fetch e (new_Request (resolve e a) ''reload'')"
    using assms(2) h x by (simp add: st)
  show "\<not> fault_at w 1 \<Longrightarrow>
         store (install e w) CACHE_SECONDARY (resolve e a) = fetch e (new_Request (resolve e a) ''reload'')"
    using assms(2) h x by (simp add: st)
qed

lemma install_keeps_other_keys:
  "k \<notin> resolve e ` set CRITICAL_ASSETS \<Longrightarrow> store (install e w) n k = store w n k"
proof -
  let ?rqs = "map (\<lambda>u. new_Request (resolve e u) ''reload'') CRITICAL_ASSETS"
  assume k: "k \<notin> resolve e ` set CRITICAL_ASSETS"
  have "fst ` set (addAll_kvs e ?rqs) = set (map fst (addAll_kvs e ?rqs))" by simp
  also have "\<dots> = set (map url ?rqs)" by (simp only: addAll_kvs_keys)
  also have "\<dots> = resolve e ` set CRITICAL_ASSETS" by (auto simp add: new_Request_def)
  finally have "k \<notin> fst ` set (addAll_kvs e ?rqs)" using k by simp
  then show ?thesis by (simp add: install_store put_all_miss)
qed

lemma install_data: "store (install e w) CACHE_DATA = store w CACHE_DATA"
  by (simp add: install_store)

lemma install_faults:
  "faults (install e w) =
     (if addAll_reaches e (map (\<lambda>u. new_Request (resolve e u) ''reload'') CRITICAL_ASSETS)
      then tl (tl (faults w)) else faults w)"
  by (simp add: install_def Let_def case_prod_beta cache_addAll_faults OPTIONAL_ASSETS_def
      cache_addAll_Nil)

lemma install_twice_no_fault:
  assumes "\<not> fault_at w 0" and "\<not> fault_at w 1" and "\<not> fault_at w 2" and "\<not> fault_at w 3"
  shows "store (install e (install e w)) = store (install e w)"
proof (cases "addAll_reaches e (map (\<lambda>u. new_Request (resolve e u) ''reload'') CRITICAL_ASSETS)")
  case False
  then show ?thesis
    by (simp add: install_store[of e "install e w"] install_store[of e w])
next
  case True
  define w1 where "w1 = w\<lparr>faults := tl (faults w)\<rparr>"
  have f1: "faults w1 = tl (faults w)" by (simp add: w1_def)
  have f2: "faults (install e w) = tl (faults w1)" using True by (simp add: install_faults f1)
  have n: "fault_at (install e w) 0 = fault_at w 2" "fault_at (install e w) 1 = fault_at w 3"
    using fault_at_tl[OF f2] fault_at_tl[OF f1] by (simp_all add: numeral_2_eq_2 numeral_3_eq_3)
  show ?thesis
    using assms n True
    by (simp add: install_store[of e "install e w"] install_store[of e w] put_all_idem fun_eq_iff)
qed

text \<open>
  Claim C9, as stated, fails when the storage rejects a write of the first run: the
  first installation leaves Primary empty (the rejection is caught and logged), and the
  second one, run after it, fills it, so two runs in sequence do not leave what one run
  leaves.
\<close>

theorem install_twice_differs_after_fault_counterexample:
  "store (install env_install (world_of empty_store [True])) CACHE_PRIMARY
       ''https://e.org/index.html'' = None
     \<and> store (install env_install (install env_install (world_of empty_store [True])))
         CACHE_PRIMARY ''https://e.org/index.html'' = Some ex_resp"
proof -
  let ?rqs = "map (\<lambda>u. new_Request (resolve env_install u) ''reload'') CRITICAL_ASSETS"
  let ?w1 = "install env_install (world_of empty_store [True])"
  have r: "addAll_reaches env_install ?rqs"
    by (simp add: addAll_reaches_def CRITICAL_ASSETS_def resolve_def new_Request_def
        response_ok_def ex_defs net_assets_def env_install_def)
  have f: "faults ?w1 = []"
    by (simp add: install_def Let_def case_prod_beta cache_addAll_faults OPTIONAL_ASSETS_def
        cache_addAll_Nil r io_defs) (simp add: ex_defs)
  then have nf: "\<not> fault_at ?w1 0" by (simp add: fault_at_def)
  have a: "''/index.html'' \<in> set CRITICAL_ASSETS" by (simp add: CRITICAL_ASSETS_def)
  have k: "resolve env_install ''/index.html'' = ''https://e.org/index.html''"
    by (simp add: resolve_def env_install_def)
  have n: "fetch env_install (new_Request ''https://e.org/index.html'' ''reload'') = Some ex_resp"
    by (simp add: env_install_def net_assets_def new_Request_def)
  have 1: "store ?w1 CACHE_PRIMARY ''https://e.org/index.html'' = None"
    by (simp add: install_store r fault_at_def) (simp add: ex_defs)
  have 2: "store (install env_install ?w1) CACHE_PRIMARY ''https://e.org/index.html'' = Some ex_resp"
    using install_overwrites(2)[OF r a nf] by (simp add: k n)
  show ?thesis using 1 2 by simp
qed

text \<open>
  Claim C9, amended: when the storage rejects no write (none of the up to four batch
  writes of the two runs), installing twice in sequence, with the same network, leaves
  the three caches as installing once does. Writes
  overwrite: when every critical asset is fetched with an ok status and the write of a
  cache is not rejected, that cache holds, under the URL of every critical asset, the
  response just fetched, whatever it held there before; entries under other URLs are
  kept and the Data cache is unchanged. A cache is a map, so no URL occurs twice, and
  opening a cache that exists is not an error.
\<close>

theorem install_idempotent:
  "(\<not> fault_at w 0 \<and> \<not> fault_at w 1 \<and> \<not> fault_at w 2 \<and> \<not> fault_at w 3 \<longrightarrow>
        store (install e (install e w)) = store (install e w))
     \<and> (addAll_reaches e (map (\<lambda>u. new_Request (resolve e u) ''reload'') CRITICAL_ASSETS)
          \<and> \<not> fault_at w 0 \<longrightarrow>
          (\<forall>a\<in>set CRITICAL_ASSETS.
             fetch e (new_Request (resolve e a) ''reload'') \<noteq> None
             \<and> store (install e w) CACHE_PRIMARY (resolve e a)
                 = fetch e (new_Request (resolve e a) ''reload'')))
     \<and> (addAll_reaches e (map (\<lambda>u. new_Request (resolve e u) ''reload'') CRITICAL_ASSETS)
          \<and> \<not> fault_at w 1 \<longrightarrow>
          (\<forall>a\<in>set CRITICAL_ASSETS.
             store (install e w) CACHE_SECONDARY (resolve e a)
               = fetch e (new_Request (resolve e a) ''reload'')))
     \<and> (\<forall>n k. k \<notin> resolve e ` set CRITICAL_ASSETS \<longrightarrow> store (install e w) n k = store w n k)
     \<and> store (install e w) CACHE_DATA = store w CACHE_DATA"
proof -
  have 1: "\<not> fault_at w 0 \<and> \<not> fault_at w 1 \<and> \<not> fault_at w 2 \<and> \<not> fault_at w 3 \<longrightarrow>
        store (install e (install e w)) = store (install e w)"
    by (simp add: install_twice_no_fault)
  have 2: "addAll_reaches e (map (\<lambda>u. new_Request (resolve e u) ''reload'') CRITICAL_ASSETS)
          \<and> \<not> fault_at w 0 \<longrightarrow>
          (\<forall>a\<in>set CRITICAL_ASSETS.
             fetch e (new_Request (resolve e a) ''reload'') \<noteq> None
             \<and> store (install e w) CACHE_PRIMARY (resolve e a)
                 = fetch e (new_Request (resolve e a) ''reload''))"
    using install_overwrites(1) install_overwrites(2) by blast
  have 3: "addAll_reaches e (map (\<lambda>u. new_Request (resolve e u) ''reload'') CRITICAL_ASSETS)
          \<and> \<not> fault_at w 1 \<longrightarrow>
          (\<forall>a\<in>set CRITICAL_ASSETS.
             store (install e w) CACHE_SECONDARY (resolve e a)
               = fetch e (new_Request (resolve e a) ''reload''))"
    using install_overwrites(3) by blast
  have 4: "\<forall>n k. k \<notin> resolve e ` set CRITICAL_ASSETS \<longrightarrow> store (install e w) n k = store w n k"
    using install_keeps_other_keys by blast
  have 5: "store (install e w) CACHE_DATA = store w CACHE_DATA"
    by (rule install_data)
  show ?thesis using 1 2 3 4 5 by blast
qed

theorem install_idempotent_witness:
  "\<not> fault_at (world_of (only_in CACHE_PRIMARY ''https://e.org/index.html'' ex_stale) []) 0
     \<and> \<not> fault_at (world_of (only_in CACHE_PRIMARY ''https://e.org/index.html'' ex_stale) []) 1
     \<and> \<not> fault_at (world_of (only_in CACHE_PRIMARY ''https://e.org/index.html'' ex_stale) []) 2
     \<and> \<not> fault_at (world_of (only_in CACHE_PRIMARY ''https://e.org/index.html'' ex_stale) []) 3
     \<and> ''/index.html'' \<in> set CRITICAL_ASSETS
     \<and> resolve env_install ''/index.html'' = ''https://e.org/index.html''
     \<and> store (world_of (only_in CACHE_PRIMARY ''https://e.org/index.html'' ex_stale) [])
          CACHE_PRIMARY ''https://e.org/index.html'' = Some ex_stale
     \<and> store (install env_install
                (world_of (only_in CACHE_PRIMARY ''https://e.org/index.html'' ex_stale) []))
          CACHE_PRIMARY ''https://e.org/index.html'' = Some ex_resp
     \<and> store (install env_install (install env_install
                (world_of (only_in CACHE_PRIMARY ''https://e.org/index.html'' ex_stale) [])))
         = store (install env_install
                (world_of (only_in CACHE_PRIMARY ''https://e.org/index.html'' ex_stale) []))"
proof -
  let ?w = "world_of (only_in CACHE_PRIMARY ''https://e.org/index.html'' ex_stale) []"
  let ?rqs = "map (\<lambda>u. new_Request (resolve env_install u) ''reload'') CRITICAL_ASSETS"
  have r: "addAll_reaches env_install ?rqs"
    by (simp add: addAll_reaches_def CRITICAL_ASSETS_def resolve_def new_Request_def
        response_ok_def ex_defs net_assets_def env_install_def)
  have f: "\<not> fault_at ?w 0" "\<not> fault_at ?w 1" "\<not> fault_at ?w 2" "\<not> fault_at ?w 3"
    by (simp_all add: ex_defs fault_at_def)
  have a: "''/index.html'' \<in> set CRITICAL_ASSETS" by (simp add: CRITICAL_ASSETS_def)
  have k: "resolve env_install ''/index.html'' = ''https://e.org/index.html''"
    by (simp add: resolve_def env_install_def)
  have s: "store ?w CACHE_PRIMARY ''https://e.org/index.html'' = Some ex_stale"
    by (simp add: ex_defs)
  have n: "fetch env_install (new_Request ''https://e.org/index.html'' ''reload'') = Some ex_resp"
    by (simp add: env_install_def net_assets_def new_Request_def)
  have "store (install env_install ?w) CACHE_PRIMARY (resolve env_install ''/index.html'')
      = fetch env_install (new_Request (resolve env_install ''/index.html'') ''reload'')"
    using install_idempotent[where e = env_install and w = ?w] r f a by blast
  then have p: "store (install env_install ?w) CACHE_PRIMARY ''https://e.org/index.html'' = Some ex_resp"
    by (simp add: k n)
  show ?thesis
    using install_idempotent[where e = env_install and w = ?w] f a k s p by blast
qed

end
